theory Spec2Isabelle
  imports Main "HOL-Library.Word"
begin

unbundle bit_operations_syntax

section \<open>Bytes, words and buffers\<close>

text \<open>
  The C code works on \<open>uint8_t\<close> buffers and reads or writes them through
  \<open>uint32_t*\<close> casts.  The target is ARMv7-M, which is little-endian: word \<open>i\<close> of a
  buffer is made of its bytes \<open>4i .. 4i+3\<close>, lowest byte first.
\<close>

type_synonym u8 = "8 word"
type_synonym u32 = "32 word"
type_synonym bytes = "u8 list"

definition ld32 :: "bytes \<Rightarrow> nat \<Rightarrow> u32" where
  "ld32 b i = ucast (b ! (4 * i)) OR push_bit 8 (ucast (b ! (4 * i + 1)))
                OR push_bit 16 (ucast (b ! (4 * i + 2))) OR push_bit 24 (ucast (b ! (4 * i + 3)))"

definition word_bytes :: "u32 \<Rightarrow> bytes" where
  "word_bytes w = [ucast w, ucast (drop_bit 8 w), ucast (drop_bit 16 w), ucast (drop_bit 24 w)]"

definition st32 :: "bytes \<Rightarrow> nat \<Rightarrow> u32 \<Rightarrow> bytes" where
  "st32 b i w = b[4 * i := ucast w, 4 * i + 1 := ucast (drop_bit 8 w),
                  4 * i + 2 := ucast (drop_bit 16 w), 4 * i + 3 := ucast (drop_bit 24 w)]"

definition xor_bytes :: "bytes \<Rightarrow> bytes \<Rightarrow> bytes" where
  "xor_bytes a b = map2 (XOR) a b"

section \<open>The macros of romulus_n.h\<close>

definition SET_DOMAIN :: "bytes \<Rightarrow> u8 \<Rightarrow> bytes" where
  "SET_DOMAIN tk1 domain = tk1[7 := domain]"

text \<open>One word of \<open>G\<close>: \<open>(tmp >> 1 & 0x7f7f7f7f) ^ ((tmp ^ (tmp << 7)) & 0x80808080)\<close>.\<close>

definition G_word :: "u32 \<Rightarrow> u32" where
  "G_word tmp = (drop_bit 1 tmp AND 0x7f7f7f7f) XOR ((tmp XOR push_bit 7 tmp) AND 0x80808080)"

text \<open>
  \<open>G(x,y)\<close> stores the four transformed words of \<open>y\<close> into \<open>x\<close>.  All 16 bytes of \<open>x\<close> are
  overwritten, and word \<open>i\<close> of \<open>y\<close> is read before word \<open>i\<close> of \<open>x\<close> is written, so the
  block stored in \<open>x\<close> is the same function of \<open>y\<close> also when \<open>x\<close> and \<open>y\<close> are one buffer
  (\<open>G(state,state)\<close>).  The model returns the block stored in \<open>x\<close>.
\<close>

definition G :: "bytes \<Rightarrow> bytes" where
  "G y = word_bytes (G_word (ld32 y 0)) @ word_bytes (G_word (ld32 y 1))
          @ word_bytes (G_word (ld32 y 2)) @ word_bytes (G_word (ld32 y 3))"

text \<open>\<open>XOR_BLOCK(x,y,z)\<close>: the block stored in \<open>x\<close>, word by word.\<close>

definition XOR_BLOCK :: "bytes \<Rightarrow> bytes \<Rightarrow> bytes" where
  "XOR_BLOCK y z = word_bytes (ld32 y 0 XOR ld32 z 0) @ word_bytes (ld32 y 1 XOR ld32 z 1)
          @ word_bytes (ld32 y 2 XOR ld32 z 2) @ word_bytes (ld32 y 3 XOR ld32 z 3)"

text \<open>
  \<open>UPDATE_CTR(tk1)\<close>, statement by statement.  Words 0 and 1 of \<open>tk1\<close> hold the 56-bit
  LFSR counter (bytes 0..6) and the domain byte (byte 7).
\<close>

definition UPDATE_CTR :: "bytes \<Rightarrow> bytes" where
  "UPDATE_CTR tk1 =
    (let tmp = ld32 tk1 1;
         tk1 = st32 tk1 1 (push_bit 1 tmp AND 0x00ffffff);
         tk1 = st32 tk1 1 (ld32 tk1 1 OR drop_bit 31 (ld32 tk1 0));
         tk1 = st32 tk1 1 (ld32 tk1 1 OR (tmp AND 0xff000000));
         tk1 = st32 tk1 0 (push_bit 1 (ld32 tk1 0))
     in if drop_bit 23 tmp AND 0x01 \<noteq> 0 then st32 tk1 0 (ld32 tk1 0 XOR 0x95) else tk1)"

text \<open>
  \<open>RHO(x,x_m,y,z,tmp)\<close> with \<open>tmp\<close> a scratch block.  The output block \<open>y\<close> and the input
  block \<open>z\<close> are distinct buffers (api.h sets \<open>CRYPTO_NOOVERLAP\<close>); the second share
  \<open>x_m\<close> is only read.  The model returns the new \<open>x\<close> and the block stored in \<open>y\<close>.
\<close>

definition RHO :: "bytes \<Rightarrow> bytes \<Rightarrow> bytes \<Rightarrow> bytes \<times> bytes" where
  "RHO x x_m z =
    (let tmp = G x;
         y = XOR_BLOCK tmp z;
         tmp = G x_m;
         y = XOR_BLOCK tmp y;
         x = XOR_BLOCK x z
     in (x, y))"

text \<open>\<open>RHO_INV(x,x_m,y,z,tmp)\<close>: \<open>y\<close> is the ciphertext block read, \<open>z\<close> the plaintext block
  stored.  The model returns the new \<open>x\<close> and the block stored in \<open>z\<close>.\<close>

definition RHO_INV :: "bytes \<Rightarrow> bytes \<Rightarrow> bytes \<Rightarrow> bytes \<times> bytes" where
  "RHO_INV x x_m y =
    (let tmp = G x;
         z = XOR_BLOCK tmp y;
         tmp = G x_m;
         z = XOR_BLOCK tmp z;
         x = XOR_BLOCK x z
     in (x, z))"

section \<open>The masked AND gadget of the assembly\<close>

text \<open>
  \<open>secand z1, z2, x1, x2, y1, y2, tmp\<close>: \<open>orn a, b, c\<close> is \<open>b OR NOT c\<close>.  The macro is
  used with output registers distinct from the input registers.
\<close>

definition secand :: "u32 \<Rightarrow> u32 \<Rightarrow> u32 \<Rightarrow> u32 \<Rightarrow> u32 \<times> u32" where
  "secand x1 x2 y1 y2 =
    (let tmp = x1 OR NOT y2;
         z1 = x1 AND y1;
         z1 = tmp XOR z1;
         tmp = x2 OR NOT y2;
         z2 = x2 AND y1;
         z2 = z2 XOR tmp
     in (z1, z2))"

text \<open>
  \<open>secorr\<close> and \<open>secxor\<close>, the two gadgets the S-box of the assembly is built from.
\<close>

definition secorr :: "u32 \<Rightarrow> u32 \<Rightarrow> u32 \<Rightarrow> u32 \<Rightarrow> u32 \<times> u32" where
  "secorr x1 x2 y1 y2 =
    (let tmp = x1 OR y2;
         z1 = x1 AND y1;
         z1 = tmp XOR z1;
         tmp = x2 AND y2;
         z2 = x2 OR y1;
         z2 = z2 XOR tmp
     in (z1, z2))"

definition secxor :: "u32 \<Rightarrow> u32 \<Rightarrow> u32 \<Rightarrow> u32 \<Rightarrow> u32 \<times> u32" where
  "secxor x1 x2 y1 y2 = (x1 XOR y1, x2 XOR y2)"

section \<open>Helpers of the core files\<close>

abbreviation (input) BLOCKBYTES :: nat where "BLOCKBYTES \<equiv> 16"
abbreviation (input) TAGBYTES :: nat where "TAGBYTES \<equiv> 16"
abbreviation (input) TWEAKEYBYTES :: nat where "TWEAKEYBYTES \<equiv> 16"
abbreviation (input) SKINNY128_384_ROUNDS :: nat where "SKINNY128_384_ROUNDS \<equiv> 40"
abbreviation (input) ENCRYPT_MODE :: int where "ENCRYPT_MODE \<equiv> 0"
abbreviation (input) DECRYPT_MODE :: int where "DECRYPT_MODE \<equiv> 1"

text \<open>
  \<open>zeroize(buf + off, buflen)\<close> and \<open>copy(dest, src, srclen)\<close>: the loops run over
  \<open>i = 0 .. len - 1\<close>.  At every call site the length is between 0 and 16.
\<close>

definition zeroize :: "bytes \<Rightarrow> nat \<Rightarrow> nat \<Rightarrow> bytes" where
  "zeroize buf off buflen = fold (\<lambda>i b. b[off + i := 0x00]) [0..<buflen] buf"

definition copy :: "bytes \<Rightarrow> bytes \<Rightarrow> nat \<Rightarrow> bytes" where
  "copy dest src srclen = fold (\<lambda>i d. d[i := src ! i]) [0..<srclen] dest"

text \<open>A 16-byte local array before its first write; every byte is written before it is read.\<close>

abbreviation (input) local16 :: bytes where "local16 \<equiv> replicate 16 0"

text \<open>The loop \<open>for (i = 0; i < len; i++) state[i] ^= ad[i];\<close>.\<close>

definition xor_prefix :: "bytes \<Rightarrow> bytes \<Rightarrow> nat \<Rightarrow> bytes" where
  "xor_prefix state ad len = fold (\<lambda>i s. s[i := s ! i XOR ad ! i]) [0..<len] state"

text \<open>
  The padded block of a partial input: \<open>copy(pad, src, len); zeroize(pad + len, 15 - len);
  pad[15] = len;\<close>.
\<close>

definition pad_block :: "bytes \<Rightarrow> nat \<Rightarrow> bytes" where
  "pad_block src len =
    (let pad = copy local16 src len;
         pad = zeroize pad len (15 - len);
         pad = pad[15 := of_nat len]
     in pad)"

section \<open>Romulus-N and Romulus-M: initialisation and tag\<close>


definition romulusm_init :: "bytes \<Rightarrow> bytes \<Rightarrow> bytes \<Rightarrow> bytes \<times> bytes \<times> bytes" where
  "romulusm_init state state_m tk1 =
    (let tk1 = tk1[0 := 0x01];
         tk1 = zeroize tk1 1 (BLOCKBYTES - 1);
         state = zeroize state 0 BLOCKBYTES;
         state_m = zeroize state_m 0 BLOCKBYTES
     in (state, state_m, tk1))"

text \<open>Tag generation returns the tag written to \<open>c\<close> and the two transformed shares.\<close>

definition romulusn_generate_tag :: "bytes \<Rightarrow> bytes \<Rightarrow> bytes \<times> bytes \<times> bytes" where
  "romulusn_generate_tag state state_m =
    (let state = G state;
         state_m = G state_m;
         c = map (\<lambda>i. state ! i XOR state_m ! i) [0..<TAGBYTES]
     in (c, state, state_m))"

definition romulusm_generate_tag :: "bytes \<Rightarrow> bytes \<Rightarrow> bytes \<times> bytes \<times> bytes" where
  "romulusm_generate_tag state state_m =
    (let state = G state;
         state_m = G state_m;
         c = map (\<lambda>i. state ! i XOR state_m ! i) [0..<TAGBYTES]
     in (c, state, state_m))"

text \<open>
  Tag verification: the loop runs over all 16 indices and ORs each byte difference
  (promoted to \<open>uint32_t\<close>) into \<open>tmp\<close>, which is returned.
\<close>

definition romulusn_verify_tag :: "bytes \<Rightarrow> bytes \<Rightarrow> bytes \<Rightarrow> u32" where
  "romulusn_verify_tag tag state state_m =
    (let state = G state;
         state_m = G state_m;
         tmp = 0
     in fold (\<lambda>i tmp. tmp OR ucast (state ! i XOR state_m ! i XOR tag ! i)) [0..<TAGBYTES] tmp)"

definition romulusm_verify_tag :: "bytes \<Rightarrow> bytes \<Rightarrow> bytes \<Rightarrow> u32" where
  "romulusm_verify_tag tag state state_m =
    (let state = G state;
         state_m = G state_m;
         tmp = 0
     in fold (\<lambda>i tmp. tmp OR ucast (state ! i XOR state_m ! i XOR tag ! i)) [0..<TAGBYTES] tmp)"

section \<open>Romulus-M: the domain byte of the last associated-data call\<close>

text \<open>The lengths are \<open>unsigned long long\<close>; nothing in the function can overflow.\<close>

definition final_ad_domain :: "nat \<Rightarrow> nat \<Rightarrow> u8" where
  "final_ad_domain adlen mlen =
    (let domain = 0;
         domain =
           (if adlen = 0 then domain XOR 0x02
            else let leftover = adlen mod (2 * BLOCKBYTES) in
              if leftover = 0 then domain XOR 0x08
              else if leftover < BLOCKBYTES then domain XOR 0x02
              else if leftover > BLOCKBYTES then domain XOR 0x0A
              else domain);
         domain =
           (if mlen = 0 then domain XOR 0x01
            else let leftover = mlen mod (2 * BLOCKBYTES) in
              if leftover = 0 then domain XOR 0x04
              else if leftover < BLOCKBYTES then domain XOR 0x01
              else if leftover > BLOCKBYTES then domain XOR 0x05
              else domain)
     in domain)"

section \<open>The block cipher and the tweakey schedule\<close>

text \<open>
  skinny128.h declares the cipher and the tweakey-schedule steps \<open>extern\<close>; they are
  assembly routines whose code for Romulus-M is not among the sources.  They are
  parameters of the model.  Each writes its output buffer in full, so it is a function
  from the buffers it reads to the buffer it writes:
  \<^item> \<open>skinny128_384_plus(ctext, ctext_m, ptext, ptext_m, rtk_23, rtk_3m, rtk1)\<close>;
  \<^item> \<open>tks_lfsr_23(rtk_23, tk_2, tk_3, rounds)\<close>, \<open>tks_lfsr_3(rtk_3, tk_3, rounds)\<close>;
  \<^item> \<open>tks_perm_23(rtk_23)\<close>, \<open>tks_perm_23_norc(rtk_23)\<close>, \<open>tks_perm_1(rtk_1, tk_1)\<close>.
\<close>

record prims =
  skinny128_384_plus :: "bytes \<Rightarrow> bytes \<Rightarrow> bytes \<Rightarrow> bytes \<Rightarrow> bytes \<Rightarrow> bytes \<times> bytes"
  tks_lfsr_23 :: "bytes \<Rightarrow> bytes \<Rightarrow> nat \<Rightarrow> bytes"
  tks_lfsr_3 :: "bytes \<Rightarrow> nat \<Rightarrow> bytes"
  tks_perm_23 :: "bytes \<Rightarrow> bytes"
  tks_perm_23_norc :: "bytes \<Rightarrow> bytes"
  tks_perm_1 :: "bytes \<Rightarrow> bytes"

text \<open>The inline functions of skinny128.h.  A tweakey argument is 16 bytes at a pointer.\<close>

definition tk_schedule_1 :: "prims \<Rightarrow> bytes \<Rightarrow> bytes" where
  "tk_schedule_1 P tk_1 = tks_perm_1 P (take TWEAKEYBYTES tk_1)"

definition tk_schedule_23 :: "prims \<Rightarrow> bytes \<Rightarrow> bytes \<Rightarrow> bytes \<Rightarrow> bytes \<times> bytes" where
  "tk_schedule_23 P tk_2 tk_3 tk_3m =
    (let rtk_23 = tks_lfsr_23 P (take TWEAKEYBYTES tk_2) (take TWEAKEYBYTES tk_3) SKINNY128_384_ROUNDS;
         rtk_23 = tks_perm_23 P rtk_23;
         rtk_3m = tks_lfsr_3 P (take TWEAKEYBYTES tk_3m) SKINNY128_384_ROUNDS;
         rtk_3m = tks_perm_23_norc P rtk_3m
     in (rtk_23, rtk_3m))"

definition tk_schedule_123 ::
  "prims \<Rightarrow> bytes \<Rightarrow> bytes \<Rightarrow> bytes \<Rightarrow> bytes \<Rightarrow> bytes \<times> bytes \<times> bytes" where
  "tk_schedule_123 P tk_1 tk_2 tk_3 tk_3m =
    (let rtk_1 = tks_perm_1 P (take TWEAKEYBYTES tk_1);
         rtk_23 = tks_lfsr_23 P (take TWEAKEYBYTES tk_2) (take TWEAKEYBYTES tk_3) SKINNY128_384_ROUNDS;
         rtk_23 = tks_perm_23 P rtk_23;
         rtk_3m = tks_lfsr_3 P (take TWEAKEYBYTES tk_3m) SKINNY128_384_ROUNDS;
         rtk_3m = tks_perm_23_norc P rtk_3m
     in (rtk_23, rtk_3m, rtk_1))"

section \<open>Romulus-M: associated-data and message processing\<close>

text \<open>
  The buffers the core functions update in place: the two state shares, \<open>tk1\<close>, and
  the two round-tweakey tables.
\<close>

record core =
  c_state :: bytes
  c_state_m :: bytes
  c_tk1 :: bytes
  c_rtk :: bytes
  c_rtk_m :: bytes

definition upd_ctr :: "core \<Rightarrow> core" where
  "upd_ctr c = c\<lparr>c_tk1 := UPDATE_CTR (c_tk1 c)\<rparr>"

definition set_domain :: "core \<Rightarrow> u8 \<Rightarrow> core" where
  "set_domain c domain = c\<lparr>c_tk1 := SET_DOMAIN (c_tk1 c) domain\<rparr>"

text \<open>\<open>XOR_BLOCK(state, state, blk)\<close>.\<close>

definition xor_state :: "core \<Rightarrow> bytes \<Rightarrow> core" where
  "xor_state c blk = c\<lparr>c_state := XOR_BLOCK (c_state c) blk\<rparr>"

text \<open>
  The pair of calls \<open>tk_schedule_123(rtk, rtk_m, rtk1, tk1, tk2, k, k_m);
  skinny128_384_plus(state, state_m, state, state_m, rtk, rtk_m, rtk1);\<close>
\<close>

definition tbc_123 :: "prims \<Rightarrow> core \<Rightarrow> bytes \<Rightarrow> bytes \<Rightarrow> bytes \<Rightarrow> core" where
  "tbc_123 P c tk2 k k_m =
    (let (rtk, rtk_m, rtk1) = tk_schedule_123 P (c_tk1 c) tk2 k k_m;
         (state, state_m) = skinny128_384_plus P (c_state c) (c_state_m c) rtk rtk_m rtk1
     in c\<lparr>c_state := state, c_state_m := state_m, c_rtk := rtk, c_rtk_m := rtk_m\<rparr>)"

text \<open>
  The pair of calls \<open>tk_schedule_1(rtk1, tk1);
  skinny128_384_plus(state, state_m, state, state_m, rtk, rtk_m, rtk1);\<close>
\<close>

definition tbc_1 :: "prims \<Rightarrow> core \<Rightarrow> core" where
  "tbc_1 P c =
    (let rtk1 = tk_schedule_1 P (c_tk1 c);
         (state, state_m) = skinny128_384_plus P (c_state c) (c_state_m c) (c_rtk c) (c_rtk_m c) rtk1
     in c\<lparr>c_state := state, c_state_m := state_m\<rparr>)"

text \<open>
  The loop over all double blocks but the last.  romulusm_process_ad has it twice with
  the same body, once over \<open>ad\<close> (\<open>adlen > 2*BLOCKBYTES\<close>) and once over \<open>m\<close>
  (\<open>mlen > 32\<close>).  A pointer that advances is a list that is dropped from.
\<close>

function double_blocks :: "prims \<Rightarrow> bytes \<Rightarrow> bytes \<Rightarrow> core \<Rightarrow> bytes \<Rightarrow> nat \<Rightarrow> core \<times> bytes \<times> nat" where
  "double_blocks P k k_m c ad adlen =
    (if adlen > 2 * BLOCKBYTES then
       (let c = upd_ctr c;
            c = xor_state c ad;
            c = tbc_123 P c (drop BLOCKBYTES ad) k k_m;
            c = upd_ctr c
        in double_blocks P k k_m c (drop (2 * BLOCKBYTES) ad) (adlen - 2 * BLOCKBYTES))
     else (c, ad, adlen))"
  by pat_completeness auto
termination
  by (relation "measure (\<lambda>(P, k, k_m, c, ad, adlen). adlen)") auto

text \<open>
  romulusm_process_ad, in the order of the source: the loop over the double blocks of
  \<open>ad\<close>, the block under the comment ``Pad and process the left-over blocks''
  (\<open>ad_leftover\<close>, which also consumes the first message block when the associated data
  ends in an odd position), the loop over the double blocks of \<open>m\<close>, the block under
  ``Process the last message double block'' (\<open>msg_leftover\<close>), and the last call with
  the nonce.
\<close>

definition ad_leftover ::
  "prims \<Rightarrow> bytes \<Rightarrow> bytes \<Rightarrow> core \<Rightarrow> bytes \<Rightarrow> nat \<Rightarrow> bytes \<Rightarrow> nat \<Rightarrow> core \<times> bytes \<times> nat" where
  "ad_leftover P k k_m c ad adlen m mlen =
    (if adlen = 2 * BLOCKBYTES then
       (let c = upd_ctr c;
            c = xor_state c ad;
            c = tbc_123 P c (drop BLOCKBYTES ad) k k_m;
            c = upd_ctr c
        in (c, m, mlen))
     else if adlen > BLOCKBYTES then
       (let adlen = adlen - BLOCKBYTES;
            c = upd_ctr c;
            c = xor_state c ad;
            pad = pad_block (drop BLOCKBYTES ad) adlen;
            c = tbc_123 P c pad k k_m;
            c = upd_ctr c
        in (c, m, mlen))
     else
       (let c = set_domain c 0x2C;
            c = upd_ctr c;
            c = (if adlen = BLOCKBYTES then xor_state c ad
                 else (let c = c\<lparr>c_state := xor_prefix (c_state c) ad adlen\<rparr>
                       in c\<lparr>c_state := (c_state c)[15 := c_state c ! 15 XOR of_nat adlen]\<rparr>))
        in if mlen \<ge> BLOCKBYTES then
             (let c = tbc_123 P c m k k_m;
                  c = (if mlen > BLOCKBYTES then upd_ctr c else c)
              in (c, drop BLOCKBYTES m, mlen - BLOCKBYTES))
           else
             (let pad = pad_block m mlen;
                  c = tbc_123 P c pad k k_m
              in (c, m, 0))))"

definition msg_leftover :: "prims \<Rightarrow> bytes \<Rightarrow> bytes \<Rightarrow> core \<Rightarrow> bytes \<Rightarrow> nat \<Rightarrow> core" where
  "msg_leftover P k k_m c m mlen =
    (if mlen = 2 * BLOCKBYTES then
       (let c = upd_ctr c;
            c = xor_state c m
        in tbc_123 P c (drop BLOCKBYTES m) k k_m)
     else if mlen > BLOCKBYTES then
       (let mlen = mlen - BLOCKBYTES;
            c = upd_ctr c;
            c = xor_state c m;
            pad = pad_block (drop BLOCKBYTES m) mlen
        in tbc_123 P c pad k k_m)
     else if mlen = BLOCKBYTES then xor_state c m
     else if mlen > 0 then
       (let c = c\<lparr>c_state := xor_prefix (c_state c) m mlen\<rparr>
        in c\<lparr>c_state := (c_state c)[15 := c_state c ! 15 XOR of_nat mlen]\<rparr>)
     else c)"

definition romulusm_process_ad ::
  "prims \<Rightarrow> core \<Rightarrow> bytes \<Rightarrow> nat \<Rightarrow> bytes \<Rightarrow> nat \<Rightarrow> bytes \<Rightarrow> bytes \<Rightarrow> bytes \<Rightarrow> core" where
  "romulusm_process_ad P c ad adlen m mlen npub k k_m =
    (let final_domain = 0x30 XOR final_ad_domain adlen mlen;
         c = set_domain c 0x28;
         (c, ad, adlen) = double_blocks P k k_m c ad adlen;
         (c, m, mlen) = ad_leftover P k k_m c ad adlen m mlen;
         c = set_domain c 0x2C;
         (c, m, mlen) = double_blocks P k k_m c m mlen;
         c = msg_leftover P k k_m c m mlen;
         c = set_domain c final_domain;
         c = upd_ctr c
     in tbc_123 P c npub k k_m)"

text \<open>
  One byte of the last, possibly partial block:
  \<open>out[i] = in[i] ^ (state[i] >> 1) ^ (state[i] & 0x80) ^ (state[i] << 7)\<close>, computed on
  \<open>int\<close> and truncated to \<open>uint8_t\<close> by the store.
\<close>

definition rho_byte :: "u8 \<Rightarrow> u8 \<Rightarrow> u8" where
  "rho_byte inb s =
    (let i32 = (ucast inb :: u32); s32 = (ucast s :: u32)
     in ucast (i32 XOR drop_bit 1 s32 XOR (s32 AND 0x80) XOR push_bit 7 s32))"

text \<open>
  The loop of romulusm_process_msg over all blocks but the last.  The blocks stored
  through \<open>out\<close> are returned in order; \<open>out\<close> and \<open>in\<close> advance together.
\<close>

function msg_blocks :: "prims \<Rightarrow> int \<Rightarrow> core \<Rightarrow> bytes \<Rightarrow> nat \<Rightarrow> core \<times> bytes \<times> bytes \<times> nat" where
  "msg_blocks P mode c inp inlen =
    (if inlen > BLOCKBYTES then
       (let c = tbc_1 P c;
            (x, blk) = (if mode = ENCRYPT_MODE then RHO (c_state c) (c_state_m c) inp
                        else RHO_INV (c_state c) (c_state_m c) inp);
            c = c\<lparr>c_state := x\<rparr>;
            c = upd_ctr c;
            (c, out, inp, inlen) = msg_blocks P mode c (drop BLOCKBYTES inp) (inlen - BLOCKBYTES)
        in (c, blk @ out, inp, inlen))
     else (c, [], inp, inlen))"
  by pat_completeness auto
termination
  by (relation "measure (\<lambda>(P, mode, c, inp, inlen). inlen)") auto

text \<open>The byte loop over the last block: the bytes stored to \<open>out\<close> and the new state.\<close>

definition last_bytes :: "bytes \<Rightarrow> bytes \<Rightarrow> bytes \<Rightarrow> nat \<Rightarrow> bytes \<times> bytes" where
  "last_bytes state state_m inp inlen =
    fold (\<lambda>i (out, state).
            (let tmp = inp ! i;
                 ob = rho_byte (inp ! i) (state ! i);
                 ob = rho_byte ob (state_m ! i);
                 state = state[i := state ! i XOR tmp]
             in (out @ [ob], state)))
         [0..<inlen] ([], state)"

text \<open>
  romulusm_process_msg returns the updated buffers and the \<open>inlen\<close> bytes it stores
  through \<open>out\<close>.  In decryption mode it reads the tag at \<open>in[inlen .. inlen+15]\<close>.
\<close>

definition romulusm_process_msg :: "prims \<Rightarrow> bytes \<Rightarrow> nat \<Rightarrow> core \<Rightarrow> int \<Rightarrow> core \<times> bytes" where
  "romulusm_process_msg P inp inlen c mode =
    (let c = (if mode = ENCRYPT_MODE then
                (let tk1 = (c_tk1 c)[0 := 0x01] in c\<lparr>c_tk1 := zeroize tk1 1 (16 - 1)\<rparr>)
              else
                c\<lparr>c_state := fold (\<lambda>i s. s[i := inp ! (inlen + i) XOR c_state_m c ! i])
                                   [0..<TAGBYTES] (c_state c)\<rparr>)
     in if inlen > 0 then
          (let c = set_domain c 0x24;
               (c, out, inp, inlen) = msg_blocks P mode c inp inlen;
               c = tbc_1 P c;
               (out', state) = last_bytes (c_state c) (c_state_m c) inp inlen;
               c = c\<lparr>c_state := state\<rparr>;
               c = c\<lparr>c_state := (c_state c)[15 := c_state c ! 15 XOR of_nat inlen]\<rparr>
           in (c, out @ out'))
        else (c, []))"

section \<open>The wrappers of the shared-input API\<close>

text \<open>
  A \<open>mask_key_uint32_t\<close> has two shares and is a pair of words; the message,
  ciphertext, associated data and (for Romulus-M) the nonce have one share per word, and
  the wrappers read and write them through \<open>(uint8_t *)\<close>, that is as their bytes.
\<close>

type_synonym share2 = "u32 \<times> u32"

definition shares_to_bytearr_2 :: "share2 list \<Rightarrow> bytes \<times> bytes" where
  "shares_to_bytearr_2 ks =
    (concat (map (\<lambda>i. [ucast (drop_bit 0 (fst (ks ! i)) AND 0xff), ucast (drop_bit 8 (fst (ks ! i)) AND 0xff),
                        ucast (drop_bit 16 (fst (ks ! i)) AND 0xff), ucast (drop_bit 24 (fst (ks ! i)) AND 0xff)])
                 [0..<BLOCKBYTES div 4]),
     concat (map (\<lambda>i. [ucast (drop_bit 0 (snd (ks ! i)) AND 0xff), ucast (drop_bit 8 (snd (ks ! i)) AND 0xff),
                        ucast (drop_bit 16 (snd (ks ! i)) AND 0xff), ucast (drop_bit 24 (snd (ks ! i)) AND 0xff)])
                 [0..<BLOCKBYTES div 4]))"

text \<open>
  Romulus-M encryption.  The result is the \<open>mlen + 16\<close> bytes stored to \<open>cs\<close> (the
  ciphertext, then the tag at \<open>cs + mlen\<close>), the value stored to \<open>*clen\<close> and the return
  value.  The round-tweakey tables are locals that romulusm_process_ad writes before the
  cipher first reads them.
\<close>

definition crypto_aead_encrypt_shared ::
  "prims \<Rightarrow> bytes \<Rightarrow> nat \<Rightarrow> bytes \<Rightarrow> nat \<Rightarrow> bytes \<Rightarrow> share2 list \<Rightarrow> bytes \<times> nat \<times> int" where
  "crypto_aead_encrypt_shared P ms mlen ads adlen npubs ks =
    (let (k, k_m) = shares_to_bytearr_2 ks;
         clen = mlen + TAGBYTES;
         (state, state_m, tk1) = romulusm_init local16 local16 local16;
         c = \<lparr>c_state = state, c_state_m = state_m, c_tk1 = tk1, c_rtk = [], c_rtk_m = []\<rparr>;
         c = romulusm_process_ad P c ads adlen ms mlen npubs k k_m;
         (tag, state, state_m) = romulusm_generate_tag (c_state c) (c_state_m c);
         c = c\<lparr>c_state := state, c_state_m := state_m\<rparr>;
         (c, out) = romulusm_process_msg P ms mlen c ENCRYPT_MODE
     in (out @ tag, clen, 0))"

text \<open>
  What a decryption call leaves behind: its return value, the content of \<open>*mlen\<close> and
  the plaintext buffer \<open>ms\<close>.  Both outputs are passed in with their content before the
  call.
\<close>

record dec_result =
  ret :: int
  mlen_out :: nat
  ms_out :: bytes

text \<open>
  Romulus-M decryption.  The bytes romulusm_process_msg stores through \<open>ms\<close> replace
  the start of the buffer.
\<close>

definition crypto_aead_decrypt_shared ::
  "prims \<Rightarrow> bytes \<Rightarrow> nat \<Rightarrow> bytes \<Rightarrow> nat \<Rightarrow> bytes \<Rightarrow> nat \<Rightarrow> bytes \<Rightarrow> share2 list \<Rightarrow> dec_result" where
  "crypto_aead_decrypt_shared P ms mlen cs clen ads adlen npubs ks =
    (if clen < TAGBYTES then \<lparr>ret = - 1, mlen_out = mlen, ms_out = ms\<rparr>
     else
       (let (k, k_m) = shares_to_bytearr_2 ks;
            clen = clen - TAGBYTES;
            mlen = clen;
            (state, state_m, tk1) = romulusm_init local16 local16 local16;
            (rtk_23, rtk_3m) = tk_schedule_23 P npubs k k_m;
            c = \<lparr>c_state = state, c_state_m = state_m, c_tk1 = tk1, c_rtk = rtk_23, c_rtk_m = rtk_3m\<rparr>;
            (c, out) = romulusm_process_msg P cs clen c DECRYPT_MODE;
            ms = out @ drop (length out) ms;
            (state, state_m, tk1) = romulusm_init (c_state c) (c_state_m c) (c_tk1 c);
            c = c\<lparr>c_state := state, c_state_m := state_m, c_tk1 := tk1\<rparr>;
            c = romulusm_process_ad P c ads adlen ms clen npubs k k_m
        in \<lparr>ret = uint (romulusm_verify_tag (drop mlen cs) (c_state c) (c_state_m c)),
            mlen_out = mlen, ms_out = ms\<rparr>))"

text \<open>
  Romulus-T decryption calls \<open>romulust_generate_tag\<close>, \<open>romulust_kdf\<close> and
  \<open>romulust_process_msg\<close>, whose file is not among the sources; they are parameters.
  Each is a function of the buffers passed to it, in the order of the call:
  \<open>romulust_generate_tag\<close> gives the new content of its first buffer (the tag) and of
  \<open>tk1\<close>, \<open>romulust_kdf\<close> the new \<open>state\<close> and \<open>tk1\<close>, and \<open>romulust_process_msg\<close> the new
  content of the output buffer.
\<close>

record tprims =
  romulust_generate_tag ::
    "bytes \<Rightarrow> bytes \<Rightarrow> bytes \<Rightarrow> nat \<Rightarrow> bytes \<Rightarrow> nat \<Rightarrow> bytes \<Rightarrow> bytes \<Rightarrow> bytes \<Rightarrow> bytes \<Rightarrow> bytes \<times> bytes"
  romulust_kdf :: "bytes \<Rightarrow> bytes \<Rightarrow> bytes \<Rightarrow> bytes \<Rightarrow> bytes \<Rightarrow> bytes \<Rightarrow> bytes \<times> bytes"
  romulust_process_msg :: "bytes \<Rightarrow> bytes \<Rightarrow> bytes \<Rightarrow> bytes \<Rightarrow> bytes \<Rightarrow> nat \<Rightarrow> bytes"

definition crypto_aead_decrypt_shared_t ::
  "tprims \<Rightarrow> bytes \<Rightarrow> nat \<Rightarrow> bytes \<Rightarrow> nat \<Rightarrow> bytes \<Rightarrow> nat \<Rightarrow> share2 list \<Rightarrow> share2 list \<Rightarrow> dec_result" where
  "crypto_aead_decrypt_shared_t T ms mlen cs clen ads adlen npubs ks =
    (let tmp = (0x00 :: u8) in
     if clen < TAGBYTES then \<lparr>ret = - 1, mlen_out = mlen, ms_out = ms\<rparr>
     else
       (let (k, k_m) = shares_to_bytearr_2 ks;
            (npub, npub_m) = shares_to_bytearr_2 npubs;
            mlen = clen - TAGBYTES;
            npub = fold (\<lambda>i n. n[i := n ! i XOR npub_m ! i]) [0..<BLOCKBYTES] npub;
            tk1 = zeroize local16 0 BLOCKBYTES;
            (state, tk1) = romulust_generate_tag T local16 tk1 ads adlen cs mlen npub npub_m k k_m;
            tmp = fold (\<lambda>i tmp. tmp OR (state ! i XOR cs ! (clen - TAGBYTES + i))) [0..<TAGBYTES] tmp
        in if tmp \<noteq> 0 then \<lparr>ret = - 1, mlen_out = mlen, ms_out = ms\<rparr>
           else
             (let tk1 = zeroize tk1 0 BLOCKBYTES;
                  (state, tk1) = romulust_kdf T state tk1 npub npub_m k k_m;
                  ms = romulust_process_msg T state tk1 npub ms cs mlen
              in \<lparr>ret = 0, mlen_out = mlen, ms_out = ms\<rparr>)))"

section \<open>Share conversion\<close>

text \<open>
  The packing code that generate_shares_encrypt and generate_shares_decrypt apply to the
  message or ciphertext and to the associated data.  \<open>ms\<close> is the array of one-share
  words (\<open>ms[i].shares[0]\<close>) with its content before the call.  A store to an index past
  the end of the list leaves the list as it is; in C it is a write past the array.
\<close>

definition pack_bytes :: "bytes \<Rightarrow> nat \<Rightarrow> u32 list \<Rightarrow> u32 list" where
  "pack_bytes m mlen ms =
    (let r = mlen mod 4;
         ms = fold (\<lambda>i ms.
                (let ms = ms[i := push_bit 0 (ucast (m ! (i * 4 + 0)))];
                     ms = ms[i := ms ! i OR push_bit 8 (ucast (m ! (i * 4 + 1)))];
                     ms = ms[i := ms ! i OR push_bit 16 (ucast (m ! (i * 4 + 2)))];
                     ms = ms[i := ms ! i OR push_bit 24 (ucast (m ! (i * 4 + 3)))]
                 in ms))
              [0..<mlen div 4] ms
     in if r \<noteq> 0 then
          (let ms = ms[mlen div 4 + 1 := 0x00000000]
           in fold (\<lambda>i ms. ms[mlen div 4 := ms ! (mlen div 4) OR push_bit (8 * i) (ucast (m ! (mlen - r + i)))])
                [0..<r] ms)
        else ms)"

text \<open>The nonce of Romulus-M is copied word by word.\<close>

definition pack_npub :: "bytes \<Rightarrow> u32 list \<Rightarrow> u32 list" where
  "pack_npub npub npubs =
    fold (\<lambda>i ns.
           (let ns = ns[i := push_bit 0 (ucast (npub ! (i * 4 + 0)))];
                ns = ns[i := ns ! i OR push_bit 8 (ucast (npub ! (i * 4 + 1)))];
                ns = ns[i := ns ! i OR push_bit 16 (ucast (npub ! (i * 4 + 2)))];
                ns = ns[i := ns ! i OR push_bit 24 (ucast (npub ! (i * 4 + 3)))]
            in ns))
         [0..<BLOCKBYTES div 4] npubs"

text \<open>
  A 16-byte secret is split into two shares: \<open>shares[1]\<close> of word \<open>i\<close> is filled by
  \<open>randombytes\<close> (here the word \<open>rnd ! i\<close>), and \<open>shares[0]\<close> is \<open>shares[1]\<close> XOR word \<open>i\<close>
  of the secret.
\<close>

definition split_shares :: "bytes \<Rightarrow> u32 list \<Rightarrow> share2 list" where
  "split_shares k rnd = map (\<lambda>i. (rnd ! i XOR ld32 k i, rnd ! i)) [0..<4]"

text \<open>generate_shares_encrypt of Romulus-M.\<close>

definition generate_shares_encrypt ::
  "bytes \<Rightarrow> u32 list \<Rightarrow> nat \<Rightarrow> bytes \<Rightarrow> u32 list \<Rightarrow> nat \<Rightarrow> bytes \<Rightarrow> u32 list \<Rightarrow> bytes \<Rightarrow> u32 list
     \<Rightarrow> u32 list \<times> u32 list \<times> u32 list \<times> share2 list" where
  "generate_shares_encrypt m ms mlen ad ads adlen npub npubs k rnd =
    (let ms = pack_bytes m mlen ms;
         ads = pack_bytes ad adlen ads;
         npubs = pack_npub npub npubs;
         ks = split_shares k rnd
     in (ms, ads, npubs, ks))"

text \<open>generate_shares_decrypt of Romulus-T; the nonce is split into shares like the key.\<close>

definition generate_shares_decrypt_t ::
  "bytes \<Rightarrow> u32 list \<Rightarrow> nat \<Rightarrow> bytes \<Rightarrow> u32 list \<Rightarrow> nat \<Rightarrow> bytes \<Rightarrow> u32 list \<Rightarrow> bytes \<Rightarrow> u32 list
     \<Rightarrow> u32 list \<times> u32 list \<times> share2 list \<times> share2 list" where
  "generate_shares_decrypt_t c cs clen ad ads adlen npub rnd_n k rnd_k =
    (let cs = pack_bytes c clen cs;
         ads = pack_bytes ad adlen ads;
         npubs = split_shares npub rnd_n;
         ks = split_shares k rnd_k
     in (cs, ads, npubs, ks))"

section \<open>Notions used to state the properties\<close>

text \<open>\<open>G\<close> on one byte: bits 7..1 move down by one, and the new bit 7 is bit 7 XOR bit 0.\<close>

definition G_byte :: "u8 \<Rightarrow> u8" where
  "G_byte s = drop_bit 1 s XOR (s AND 0x80) XOR push_bit 7 s"


text \<open>
  The two terms of the specification's description of the AND gadget, for the output
  share of index \<open>same\<close>: \<open>NOT(x_other) AND y_same\<close> and \<open>x_same AND y_same\<close>.
\<close>

definition spec_and_terms :: "u32 \<Rightarrow> u32 \<Rightarrow> u32 \<Rightarrow> u32 \<times> u32" where
  "spec_and_terms x_same x_other y_same = (NOT x_other AND y_same, x_same AND y_same)"

text \<open>
  The cases of an input length as claim C7 lists them: empty, an odd or an even number
  of full 16-byte blocks, or a trailing partial block.
\<close>

datatype spec_case = Empty | OddFull | EvenFull | TrailingPartial

definition spec_case_of :: "nat \<Rightarrow> spec_case" where
  "spec_case_of n =
    (if n = 0 then Empty
     else if n mod 16 \<noteq> 0 then TrailingPartial
     else if (n div 16) mod 2 = 1 then OddFull
     else EvenFull)"

text \<open>
  The cases final_ad_domain tells apart, by the length modulo 32: an empty input or a
  last partial block in odd position (\<open>0 < r < 16\<close>), a last full block in odd position
  (\<open>r = 16\<close>), a last partial block in even position (\<open>16 < r\<close>), a last full block in
  even position (\<open>r = 0\<close>, length not 0).
\<close>

datatype domain_case = PaddedOdd | FullOdd | PartialEven | FullEven

definition domain_case_of :: "nat \<Rightarrow> domain_case" where
  "domain_case_of n =
    (if n = 0 then PaddedOdd
     else if n mod 32 = 0 then FullEven
     else if n mod 32 < 16 then PaddedOdd
     else if n mod 32 = 16 then FullOdd
     else PartialEven)"

fun ad_bits :: "domain_case \<Rightarrow> u8" where
  "ad_bits PaddedOdd = 0x02"
| "ad_bits FullOdd = 0x00"
| "ad_bits PartialEven = 0x0A"
| "ad_bits FullEven = 0x08"

fun msg_bits :: "domain_case \<Rightarrow> u8" where
  "msg_bits PaddedOdd = 0x01"
| "msg_bits FullOdd = 0x00"
| "msg_bits PartialEven = 0x05"
| "msg_bits FullEven = 0x04"

text \<open>
  Stand-ins for the routines that are parameters of the model, to run the model on
  concrete inputs.  The stand-in cipher XORs the first 16 bytes of each table into the
  share that the assembly adds that table to; the stand-in schedule passes the tweakeys
  through.
\<close>

definition toy_prims :: prims where
  "toy_prims =
    \<lparr>skinny128_384_plus =
        (\<lambda>ptext ptext_m rtk_23 rtk_3m rtk1.
           (xor_bytes (xor_bytes ptext (take 16 rtk_23)) (take 16 rtk1), xor_bytes ptext_m (take 16 rtk_3m))),
      tks_lfsr_23 = (\<lambda>tk_2 tk_3 rounds. xor_bytes tk_2 tk_3),
      tks_lfsr_3 = (\<lambda>tk_3 rounds. tk_3),
      tks_perm_23 = (\<lambda>rtk. rtk),
      tks_perm_23_norc = (\<lambda>rtk. rtk),
      tks_perm_1 = (\<lambda>tk_1. tk_1)\<rparr>"

definition toy_tprims :: tprims where
  "toy_tprims =
    \<lparr>romulust_generate_tag =
        (\<lambda>tag tk1 ads adlen cs mlen npub npub_m k k_m. (xor_bytes npub (xor_bytes k k_m), tk1)),
      romulust_kdf = (\<lambda>state tk1 npub npub_m k k_m. (xor_bytes npub (xor_bytes k k_m), tk1)),
      romulust_process_msg =
        (\<lambda>state tk1 npub out inp inlen. xor_bytes (take inlen inp) state @ drop inlen out)\<rparr>"

text \<open>
  The parts of a Romulus-M decryption call, named to state what the call leaves behind:
  the buffers before the message pass, the bytes the message pass stores to the
  plaintext buffer, and the tag recomputed by the associated-data pass over that buffer.
\<close>

definition m_dec_start :: "prims \<Rightarrow> bytes \<Rightarrow> share2 list \<Rightarrow> core" where
  "m_dec_start P npubs ks =
    (let (k, k_m) = shares_to_bytearr_2 ks;
         (state, state_m, tk1) = romulusm_init local16 local16 local16;
         (rtk_23, rtk_3m) = tk_schedule_23 P npubs k k_m
     in \<lparr>c_state = state, c_state_m = state_m, c_tk1 = tk1, c_rtk = rtk_23, c_rtk_m = rtk_3m\<rparr>)"

definition m_dec_plain :: "prims \<Rightarrow> bytes \<Rightarrow> nat \<Rightarrow> bytes \<Rightarrow> share2 list \<Rightarrow> bytes" where
  "m_dec_plain P cs clen npubs ks =
     snd (romulusm_process_msg P cs (clen - TAGBYTES) (m_dec_start P npubs ks) DECRYPT_MODE)"

definition m_dec_tag :: "prims \<Rightarrow> bytes \<Rightarrow> bytes \<Rightarrow> nat \<Rightarrow> bytes \<Rightarrow> nat \<Rightarrow> bytes \<Rightarrow> share2 list \<Rightarrow> bytes" where
  "m_dec_tag P ms cs clen ads adlen npubs ks =
    (let (k, k_m) = shares_to_bytearr_2 ks;
         c = fst (romulusm_process_msg P cs (clen - TAGBYTES) (m_dec_start P npubs ks) DECRYPT_MODE);
         (state, state_m, tk1) = romulusm_init (c_state c) (c_state_m c) (c_tk1 c);
         c = c\<lparr>c_state := state, c_state_m := state_m, c_tk1 := tk1\<rparr>;
         c = romulusm_process_ad P c ads adlen ms (clen - TAGBYTES) npubs k k_m
     in fst (romulusm_generate_tag (c_state c) (c_state_m c)))"

text \<open>
  The tag a Romulus-T decryption call recomputes before it compares it with the last 16
  bytes of the ciphertext.
\<close>

definition t_dec_tag :: "tprims \<Rightarrow> bytes \<Rightarrow> nat \<Rightarrow> bytes \<Rightarrow> nat \<Rightarrow> share2 list \<Rightarrow> share2 list \<Rightarrow> bytes" where
  "t_dec_tag T cs clen ads adlen npubs ks =
    (let (k, k_m) = shares_to_bytearr_2 ks;
         (npub, npub_m) = shares_to_bytearr_2 npubs;
         npub = fold (\<lambda>i n. n[i := n ! i XOR npub_m ! i]) [0..<BLOCKBYTES] npub;
         tk1 = zeroize local16 0 BLOCKBYTES
     in fst (romulust_generate_tag T local16 tk1 ads adlen cs (clen - TAGBYTES) npub npub_m k k_m))"

text \<open>
  The tweakable block cipher as the core functions call it: the tweakey schedule on
  \<open>(tk1, tk2, k, k_m)\<close> followed by the cipher on the two shares.
\<close>

definition tbc :: "prims \<Rightarrow> bytes \<Rightarrow> bytes \<Rightarrow> bytes \<Rightarrow> bytes \<Rightarrow> bytes \<Rightarrow> bytes \<Rightarrow> bytes \<times> bytes" where
  "tbc P tk1 tk2 k k_m p p_m =
    (let (rtk, rtk_m, rtk1) = tk_schedule_123 P tk1 tk2 k k_m
     in skinny128_384_plus P p p_m rtk rtk_m rtk1)"

text \<open>
  Modelled from the spec: the assembly of the cipher and of the tweakey schedule of
  Romulus-M is not among the sources.  The specification gives its contract (section 4.1:
  ``given two 128-bit plaintext shares and a precomputed round-tweakey table, produce two
  ciphertext shares whose XOR equals the unmasked cipher's output''; section 3: the key
  always carries two shares whose XOR is the key).  So the XOR of the two output shares
  is a function of the tweak inputs, of the key \<open>k XOR k_m\<close> and of the input
  \<open>p XOR p_m\<close>: two calls that agree on these agree on the XOR of their outputs,
  which are 16-byte blocks.
\<close>

definition masking_contract :: "prims \<Rightarrow> bool" where
  "masking_contract P \<longleftrightarrow>
    (\<forall>tk1 tk2 k k_m k' k_m' p p_m q q_m.
        length tk1 = 16 \<and> 16 \<le> length tk2
        \<and> length k = 16 \<and> length k_m = 16 \<and> length k' = 16 \<and> length k_m' = 16
        \<and> length p = 16 \<and> length p_m = 16 \<and> length q = 16 \<and> length q_m = 16
        \<and> xor_bytes k k_m = xor_bytes k' k_m' \<and> xor_bytes p p_m = xor_bytes q q_m
      \<longrightarrow> length (fst (tbc P tk1 tk2 k k_m p p_m)) = 16
          \<and> length (snd (tbc P tk1 tk2 k k_m p p_m)) = 16
          \<and> xor_bytes (fst (tbc P tk1 tk2 k k_m p p_m)) (snd (tbc P tk1 tk2 k k_m p p_m))
              = xor_bytes (fst (tbc P tk1 tk2 k' k_m' q q_m)) (snd (tbc P tk1 tk2 k' k_m' q q_m)))"

text \<open>The 16-byte key that a key-share array stands for.\<close>

definition key_of :: "share2 list \<Rightarrow> bytes" where
  "key_of ks = xor_bytes (fst (shares_to_bytearr_2 ks)) (snd (shares_to_bytearr_2 ks))"

text \<open>
  Two sets of buffers stand for the same unmasked computation: the same \<open>tk1\<close> and the
  same XOR of the two state shares.
\<close>

definition share_eq :: "core \<Rightarrow> core \<Rightarrow> bool" where
  "share_eq c d \<longleftrightarrow>
     c_tk1 c = c_tk1 d \<and> length (c_tk1 c) = 16
     \<and> length (c_state c) = 16 \<and> length (c_state_m c) = 16
     \<and> length (c_state d) = 16 \<and> length (c_state_m d) = 16
     \<and> xor_bytes (c_state c) (c_state_m c) = xor_bytes (c_state d) (c_state_m d)"

section \<open>Bytes and words: auxiliary facts\<close>



lemma lt8_cases:
  assumes "(k::nat) < 8"
  obtains "k = 0" | "k = 1" | "k = 2" | "k = 3" | "k = 4" | "k = 5" | "k = 6" | "k = 7"
  using assms by arith

lemma G_word_byte:
  assumes "j < 4"
  shows "(ucast (drop_bit (8 * j) (G_word w)) :: u8) = G_byte (ucast (drop_bit (8 * j) w))"
proof (rule bit_word_eqI)
  fix n assume "n < LENGTH(8)"
  then have "n < 8" by simp
  from assms consider "j = 0" | "j = 1" | "j = 2" | "j = 3" by arith
  then show "bit (ucast (drop_bit (8 * j) (G_word w)) :: u8) n = bit (G_byte (ucast (drop_bit (8 * j) w))) n"
    by cases (rule lt8_cases[OF \<open>n < 8\<close>]; simp add: G_word_def G_byte_def bit_simps)+
qed

lemma word_bytes_G_word: "word_bytes (G_word w) = map G_byte (word_bytes w)"
  using G_word_byte[of 0 w] G_word_byte[of 1 w] G_word_byte[of 2 w] G_word_byte[of 3 w]
  by (simp add: word_bytes_def)

lemma word_bytes_xor: "word_bytes (v XOR w) = map2 (XOR) (word_bytes v) (word_bytes w)"
  by (simp add: word_bytes_def bit_eq_iff bit_simps)

lemma word_bytes_ld32:
  "word_bytes (ld32 b i) = [b ! (4 * i), b ! (4 * i + 1), b ! (4 * i + 2), b ! (4 * i + 3)]"
  apply (simp add: word_bytes_def ld32_def)
  apply (intro conjI bit_word_eqI)
     apply (auto simp add: bit_simps dest: bit_imp_le_length)
  done

lemma len16:
  "length (xs::'a list) = 16 \<Longrightarrow> \<exists>a0 a1 a2 a3 a4 a5 a6 a7 a8 a9 a10 a11 a12 a13 a14 a15.
     xs = [a0,a1,a2,a3,a4,a5,a6,a7,a8,a9,a10,a11,a12,a13,a14,a15]"
  by (auto simp: numeral_eq_Suc length_Suc_conv)

lemma block_nths:
  "length (y::'a list) = 16 \<Longrightarrow> [y!0, y!1, y!2, y!3, y!4, y!5, y!6, y!7, y!8, y!9, y!10, y!11, y!12, y!13, y!14, y!15] = y"
  by (drule len16) auto

lemma G_bytes: "length y = 16 \<Longrightarrow> G y = map G_byte y"
proof -
  assume "length y = 16"
  from len16[OF this] obtain a0 a1 a2 a3 a4 a5 a6 a7 a8 a9 a10 a11 a12 a13 a14 a15
    where y: "y = [a0,a1,a2,a3,a4,a5,a6,a7,a8,a9,a10,a11,a12,a13,a14,a15]" by blast
  show ?thesis unfolding y by (simp add: G_def word_bytes_G_word word_bytes_ld32)
qed



lemma length_st32 [simp]: "length (st32 b i w) = length b"
  by (simp add: st32_def)

lemma word_of_bytes:
  "(ucast (ucast w :: u8) :: u32) OR push_bit 8 (ucast (ucast (drop_bit 8 w) :: u8))
     OR push_bit 16 (ucast (ucast (drop_bit 16 w) :: u8)) OR push_bit 24 (ucast (ucast (drop_bit 24 w) :: u8)) = w"
proof (rule bit_word_eqI)
  fix n assume "n < LENGTH(32)"
  then consider "n < 8" | "8 \<le> n" "n < 16" | "16 \<le> n" "n < 24" | "24 \<le> n" "n < 32"
    by fastforce
  then show "bit ((ucast (ucast w :: u8) :: u32) OR push_bit 8 (ucast (ucast (drop_bit 8 w) :: u8))
     OR push_bit 16 (ucast (ucast (drop_bit 16 w) :: u8)) OR push_bit 24 (ucast (ucast (drop_bit 24 w) :: u8))) n = bit w n"
    by cases (auto simp add: bit_simps)
qed

lemma ld32_st32_same: "4 * i + 3 < length b \<Longrightarrow> ld32 (st32 b i w) i = w"
  by (simp add: ld32_def st32_def word_of_bytes)

lemma ld32_st32_other: "i \<noteq> j \<Longrightarrow> ld32 (st32 b i w) j = ld32 b j"
  by (simp add: ld32_def st32_def)

lemma st32_st32_same: "st32 (st32 b i v) i w = st32 b i w"
  by (simp add: st32_def list_update_swap)

lemma nth_st32_other: "j div 4 \<noteq> i \<Longrightarrow> st32 b i w ! j = b ! j"
  by (auto simp add: st32_def nth_list_update)

lemma nth_st32_same: "4 * i + 3 < length b \<Longrightarrow> k < 4 \<Longrightarrow> st32 b i w ! (4 * i + k) = ucast (drop_bit (8 * k) w)"
  apply (subgoal_tac "k = 0 \<or> k = 1 \<or> k = 2 \<or> k = 3")
  apply (auto simp add: st32_def nth_list_update)
  done


lemma UPDATE_CTR_words:
  assumes "length tk1 = 16"
  shows "UPDATE_CTR tk1 =
     st32 (st32 tk1 1 (((push_bit 1 (ld32 tk1 1) AND 0x00ffffff) OR drop_bit 31 (ld32 tk1 0)) OR (ld32 tk1 1 AND 0xff000000)))
        0 (if drop_bit 23 (ld32 tk1 1) AND 0x01 \<noteq> 0 then push_bit 1 (ld32 tk1 0) XOR 0x95 else push_bit 1 (ld32 tk1 0))"
  using assms
  by (simp add: UPDATE_CTR_def Let_def ld32_st32_same ld32_st32_other st32_st32_same)


lemma ctr_top_byte:
  "(ucast (drop_bit 24 (((push_bit 1 t AND 0x00ffffff) OR drop_bit 31 w0) OR (t AND 0xff000000))) :: u8)
     = ucast (drop_bit 24 (t :: u32))"
proof (rule bit_word_eqI)
  fix n assume "n < LENGTH(8)"
  then have "n < 8" by simp
  then show "bit (ucast (drop_bit 24 (((push_bit 1 t AND 0x00ffffff) OR drop_bit 31 w0) OR (t AND 0xff000000))) :: u8) n
     = bit (ucast (drop_bit 24 t) :: u8) n"
    by (rule lt8_cases) (auto simp add: bit_simps dest: bit_imp_le_length)
qed

lemma byte3_ld32: "(ucast (drop_bit 24 (ld32 b i)) :: u8) = b ! (4 * i + 3)"
  apply (simp add: ld32_def)
  apply (rule bit_word_eqI)
  apply (auto simp add: bit_simps dest: bit_imp_le_length)
  done

lemma UPDATE_CTR_length: "length (UPDATE_CTR tk1) = length tk1"
  by (simp add: UPDATE_CTR_def Let_def)

lemma UPDATE_CTR_nth7: "length tk1 = 16 \<Longrightarrow> UPDATE_CTR tk1 ! 7 = tk1 ! 7"
proof -
  assume len: "length tk1 = 16"
  define W where "W = ((push_bit 1 (ld32 tk1 1) AND 0x00ffffff) OR drop_bit 31 (ld32 tk1 0)) OR (ld32 tk1 1 AND 0xff000000)"
  have "UPDATE_CTR tk1 ! 7 = st32 tk1 1 W ! (4 * 1 + 3)"
    unfolding UPDATE_CTR_words[OF len] W_def by (simp add: nth_st32_other)
  also have "\<dots> = ucast (drop_bit (8 * 3) W)"
    by (rule nth_st32_same) (simp_all add: len)
  also have "\<dots> = ucast (drop_bit 24 (ld32 tk1 1))"
    unfolding W_def using ctr_top_byte[of "ld32 tk1 1" "ld32 tk1 0"] by simp
  also have "\<dots> = tk1 ! (4 * 1 + 3)"
    by (rule byte3_ld32)
  finally show ?thesis by simp
qed

lemma UPDATE_CTR_nth_high: "length tk1 = 16 \<Longrightarrow> 8 \<le> i \<Longrightarrow> UPDATE_CTR tk1 ! i = tk1 ! i"
  by (simp add: UPDATE_CTR_words nth_st32_other)

lemma c95_32: "(0x95 :: u32) = 1 OR push_bit 2 1 OR push_bit 4 1 OR push_bit 7 1" by simp
lemma c95_64: "(0x95 :: 64 word) = 1 OR push_bit 2 1 OR push_bit 4 1 OR push_bit 7 1" by simp













section \<open>Blocks: auxiliary facts\<close>


lemma length_word_bytes [simp]: "length (word_bytes w) = 4"
  by (simp add: word_bytes_def)

lemma length_G [simp]: "length (G y) = 16"
  by (simp add: G_def)

lemma length_XOR_BLOCK [simp]: "length (XOR_BLOCK y z) = 16"
  by (simp add: XOR_BLOCK_def)

lemma length_xor_bytes [simp]: "length (xor_bytes a b) = min (length a) (length b)"
  by (simp add: xor_bytes_def)

lemma nth_xor_bytes: "i < length a \<Longrightarrow> i < length b \<Longrightarrow> xor_bytes a b ! i = a ! i XOR b ! i"
  by (simp add: xor_bytes_def)


lemma xor_bytes_assoc: "xor_bytes (xor_bytes a b) c = xor_bytes a (xor_bytes b c)"
  by (rule nth_equalityI) (simp_all add: nth_xor_bytes xor.assoc)

lemma XOR_BLOCK_bytes:
  assumes "length y = 16" "length z = 16"
  shows "XOR_BLOCK y z = xor_bytes y z"
proof -
  from len16[OF assms(1)] obtain a0 a1 a2 a3 a4 a5 a6 a7 a8 a9 a10 a11 a12 a13 a14 a15
    where y: "y = [a0,a1,a2,a3,a4,a5,a6,a7,a8,a9,a10,a11,a12,a13,a14,a15]" by blast
  from len16[OF assms(2)] obtain b0 b1 b2 b3 b4 b5 b6 b7 b8 b9 b10 b11 b12 b13 b14 b15
    where z: "z = [b0,b1,b2,b3,b4,b5,b6,b7,b8,b9,b10,b11,b12,b13,b14,b15]" by blast
  show ?thesis unfolding y z
    by (simp add: XOR_BLOCK_def xor_bytes_def word_bytes_xor word_bytes_ld32)
qed

lemma ld32_take: "4 * i + 3 < n \<Longrightarrow> ld32 (take n b) i = ld32 b i"
  by (simp add: ld32_def)

lemma XOR_BLOCK_take:
  "XOR_BLOCK y z = XOR_BLOCK (take 16 y) (take 16 z)"
  by (simp add: XOR_BLOCK_def ld32_take)

lemma G_take: "G y = G (take 16 y)"
  by (simp add: G_def ld32_take)

lemma length_zeroize [simp]: "length (zeroize buf off n) = length buf"
  unfolding zeroize_def by (induction n) simp_all



section \<open>Tags: auxiliary facts\<close>


lemma fold_or_eq_0:
  "fold (\<lambda>i acc. acc OR f i) xs a = (0::'a::len word) \<longleftrightarrow> a = 0 \<and> (\<forall>i\<in>set xs. f i = 0)"
  by (induction xs arbitrary: a) (auto simp add: or_eq_0_iff)

lemma ucast_u8_u32_eq_0: "(ucast (b :: u8) :: u32) = 0 \<longleftrightarrow> b = 0"
proof
  assume a: "(ucast b :: u32) = 0"
  show "b = 0"
  proof (rule bit_word_eqI)
    fix n assume "n < LENGTH(8)"
    then have "bit (ucast b :: u32) n = bit b n" by (simp add: bit_simps)
    then show "bit b n = bit (0 :: u8) n" using a by simp
  qed
qed simp

lemma word_xor_eq_0_iff: "x XOR y = 0 \<longleftrightarrow> x = (y::'a::len word)"
proof
  assume "x XOR y = 0"
  then have "(x XOR y) XOR y = y" by simp
  then show "x = y" by (simp add: xor.assoc)
qed simp

lemma generate_tag_xor:
  "fst (romulusn_generate_tag state state_m) = xor_bytes (G state) (G state_m)"
  "fst (romulusm_generate_tag state state_m) = xor_bytes (G state) (G state_m)"
  by (rule nth_equalityI; simp add: romulusn_generate_tag_def romulusm_generate_tag_def Let_def nth_xor_bytes)+

lemma tag_diff_zero_iff:
  assumes "length tag = 16"
  shows "(\<forall>i\<in>set [0..<16]. (ucast (G state ! i XOR G state_m ! i XOR tag ! i) :: u32) = 0)
          \<longleftrightarrow> xor_bytes (G state) (G state_m) = tag"
proof
  assume a: "\<forall>i\<in>set [0..<16]. (ucast (G state ! i XOR G state_m ! i XOR tag ! i) :: u32) = 0"
  show "xor_bytes (G state) (G state_m) = tag"
  proof (rule nth_equalityI)
    show "length (xor_bytes (G state) (G state_m)) = length tag" using assms by simp
  next
    fix i assume "i < length (xor_bytes (G state) (G state_m))"
    then have i: "i < 16" by simp
    with a have "G state ! i XOR G state_m ! i XOR tag ! i = 0"
      by (simp add: ucast_u8_u32_eq_0)
    then have "(G state ! i XOR G state_m ! i) XOR tag ! i = 0"
      by (simp add: xor.assoc)
    then have "G state ! i XOR G state_m ! i = tag ! i"
      by (simp only: word_xor_eq_0_iff)
    then show "xor_bytes (G state) (G state_m) ! i = tag ! i"
      using i by (simp add: nth_xor_bytes)
  qed
next
  assume e: "xor_bytes (G state) (G state_m) = tag"
  show "\<forall>i\<in>set [0..<16]. (ucast (G state ! i XOR G state_m ! i XOR tag ! i) :: u32) = 0"
  proof
    fix i assume "i \<in> set [0..<16]"
    then have i: "i < 16" by simp
    have "tag ! i = G state ! i XOR G state_m ! i"
      using i e[symmetric] by (simp add: nth_xor_bytes)
    then have "(G state ! i XOR G state_m ! i) XOR tag ! i = 0"
      by (simp only: word_xor_eq_0_iff)
    then have "G state ! i XOR G state_m ! i XOR tag ! i = 0"
      by (simp only: xor.assoc)
    then show "(ucast (G state ! i XOR G state_m ! i XOR tag ! i) :: u32) = 0"
      by (simp only: ucast_u8_u32_eq_0)
  qed
qed

section \<open>Decryption: auxiliary facts\<close>


lemma double_blocks_stop: "adlen \<le> 32 \<Longrightarrow> double_blocks P k k_m c ad adlen = (c, ad, adlen)"
  by (subst double_blocks.simps) simp

lemma msg_blocks_stop: "inlen \<le> 16 \<Longrightarrow> msg_blocks P mode c inp inlen = (c, [], inp, inlen)"
  by (subst msg_blocks.simps) simp

lemma decrypt_m_unfold:
  assumes "16 \<le> clen"
  shows "crypto_aead_decrypt_shared P ms mlen cs clen ads adlen npubs ks =
    (let plain = m_dec_plain P cs clen npubs ks;
         ms' = plain @ drop (length plain) ms;
         (k, k_m) = shares_to_bytearr_2 ks;
         c = fst (romulusm_process_msg P cs (clen - 16) (m_dec_start P npubs ks) DECRYPT_MODE);
         (state, state_m, tk1) = romulusm_init (c_state c) (c_state_m c) (c_tk1 c);
         c = c\<lparr>c_state := state, c_state_m := state_m, c_tk1 := tk1\<rparr>;
         c = romulusm_process_ad P c ads adlen ms' (clen - 16) npubs k k_m
     in \<lparr>ret = uint (romulusm_verify_tag (drop (clen - 16) cs) (c_state c) (c_state_m c)),
         mlen_out = clen - 16, ms_out = ms'\<rparr>)"
  using assms
  by (simp add: crypto_aead_decrypt_shared_def m_dec_plain_def m_dec_start_def Let_def split: prod.splits)

lemma verify_tag_m_zero:
  "length tag = 16 \<Longrightarrow>
     romulusm_verify_tag tag state state_m = 0 \<longleftrightarrow> fst (romulusm_generate_tag state state_m) = tag"
  using tag_diff_zero_iff[of tag state state_m]
  by (simp add: romulusm_verify_tag_def generate_tag_xor fold_or_eq_0 del: set_upt)

lemma decrypt_m_ret:
  assumes "16 \<le> clen" "length cs = clen"
  shows "ret (crypto_aead_decrypt_shared P ms mlen cs clen ads adlen npubs ks) = 0
     \<longleftrightarrow> m_dec_tag P (ms_out (crypto_aead_decrypt_shared P ms mlen cs clen ads adlen npubs ks))
             cs clen ads adlen npubs ks = drop (clen - 16) cs"
proof -
  have l: "length (drop (clen - 16) cs) = 16" using assms by simp
  show ?thesis
    unfolding decrypt_m_unfold[OF assms(1)] m_dec_tag_def
    by (simp add: Let_def verify_tag_m_zero[OF l] unsigned_eq_0_iff split: prod.splits)
qed


lemma decrypt_t_unfold:
  assumes "16 \<le> clen"
  shows "crypto_aead_decrypt_shared_t T ms mlen cs clen ads adlen npubs ks =
    (if \<exists>i\<in>set [0..<16]. t_dec_tag T cs clen ads adlen npubs ks ! i XOR cs ! (clen - 16 + i) \<noteq> 0
     then \<lparr>ret = - 1, mlen_out = clen - 16, ms_out = ms\<rparr>
     else \<lparr>ret = 0, mlen_out = clen - 16,
           ms_out = ms_out (crypto_aead_decrypt_shared_t T ms mlen cs clen ads adlen npubs ks)\<rparr>)"
  using assms
  by (simp add: crypto_aead_decrypt_shared_t_def t_dec_tag_def Let_def fold_or_eq_0 split: prod.splits del: set_upt)

section \<open>Linearity of G and the RHO transforms\<close>


lemma rho_byte_eq: "rho_byte inb s = inb XOR G_byte s"
proof (rule bit_word_eqI)
  fix n assume "n < LENGTH(8)"
  then have "n < 8" by simp
  then show "bit (rho_byte inb s) n = bit (inb XOR G_byte s) n"
    by (rule lt8_cases) (simp_all add: rho_byte_def G_byte_def Let_def bit_simps)
qed

lemma G_byte_xor: "G_byte (a XOR b) = G_byte a XOR G_byte b"
proof (rule bit_word_eqI)
  fix n assume "n < LENGTH(8)"
  then have "n < 8" by simp
  then show "bit (G_byte (a XOR b)) n = bit (G_byte a XOR G_byte b) n"
    by (rule lt8_cases) (auto simp add: G_byte_def bit_simps)
qed

lemma G_xor: "length a = 16 \<Longrightarrow> length b = 16 \<Longrightarrow> G (xor_bytes a b) = xor_bytes (G a) (G b)"
  by (rule nth_equalityI) (simp_all add: G_bytes nth_xor_bytes G_byte_xor)

lemma xor_bytes_self_cancel: "length a = length b \<Longrightarrow> xor_bytes a (xor_bytes a b) = b"
  by (rule nth_equalityI) (simp_all add: nth_xor_bytes flip: xor.assoc)

lemma xor_bytes_take: "xor_bytes (take n a) (take n b) = take n (xor_bytes a b)"
  by (simp add: xor_bytes_def take_zip take_map)

lemma XOR_BLOCK_ge:
  assumes "16 \<le> length y" "16 \<le> length z"
  shows "XOR_BLOCK y z = xor_bytes (take 16 y) (take 16 z)"
proof -
  have "XOR_BLOCK y z = XOR_BLOCK (take 16 y) (take 16 z)" by (rule XOR_BLOCK_take)
  also have "\<dots> = xor_bytes (take 16 y) (take 16 z)"
    using assms by (intro XOR_BLOCK_bytes) simp_all
  finally show ?thesis .
qed

lemma RHO_eq:
  assumes "length x = 16" "length x_m = 16" "16 \<le> length z"
  shows "RHO x x_m z = (xor_bytes x (take 16 z), xor_bytes (G (xor_bytes x x_m)) (take 16 z))"
proof -
  have "xor_bytes (G x_m) (xor_bytes (G x) (take 16 z)) = xor_bytes (xor_bytes (G x) (G x_m)) (take 16 z)"
    by (rule nth_equalityI) (simp_all add: nth_xor_bytes assms xor.assoc xor.commute xor.left_commute)
  then show ?thesis
    using assms by (simp add: RHO_def Let_def XOR_BLOCK_ge G_xor)
qed

lemma RHO_INV_eq:
  assumes "length x = 16" "length x_m = 16" "16 \<le> length y"
  shows "RHO_INV x x_m y = (xor_bytes x (xor_bytes (G (xor_bytes x x_m)) (take 16 y)),
                            xor_bytes (G (xor_bytes x x_m)) (take 16 y))"
proof -
  have "xor_bytes (G x_m) (xor_bytes (G x) (take 16 y)) = xor_bytes (xor_bytes (G x) (G x_m)) (take 16 y)"
    by (rule nth_equalityI) (simp_all add: nth_xor_bytes assms xor.assoc xor.commute xor.left_commute)
  then show ?thesis
    using assms by (simp add: RHO_INV_def Let_def XOR_BLOCK_ge G_xor)
qed

section \<open>Buffers that stand for the same unmasked state\<close>

lemma length_SET_DOMAIN [simp]: "length (SET_DOMAIN tk1 d) = length tk1"
  by (simp add: SET_DOMAIN_def)

lemma share_eq_iff:
  "share_eq c d \<longleftrightarrow>
     c_tk1 c = c_tk1 d \<and> length (c_tk1 c) = 16 \<and> length (c_tk1 d) = 16
     \<and> length (c_state c) = 16 \<and> length (c_state_m c) = 16
     \<and> length (c_state d) = 16 \<and> length (c_state_m d) = 16
     \<and> xor_bytes (c_state c) (c_state_m c) = xor_bytes (c_state d) (c_state_m d)"
  by (auto simp add: share_eq_def)

lemma xor_bytes_nthD:
  assumes "xor_bytes s sm = xor_bytes t tm" "i < length s" "i < length sm" "i < length t" "i < length tm"
  shows "s ! i XOR sm ! i = t ! i XOR tm ! i"
proof -
  have "xor_bytes s sm ! i = xor_bytes t tm ! i" using assms(1) by simp
  then show ?thesis using assms(2-5) by (simp only: nth_xor_bytes)
qed

lemma share_eq_upd_ctr: "share_eq c d \<Longrightarrow> share_eq (upd_ctr c) (upd_ctr d)"
  by (auto simp add: share_eq_iff upd_ctr_def UPDATE_CTR_length)

lemma share_eq_set_domain: "share_eq c d \<Longrightarrow> share_eq (set_domain c v) (set_domain d v)"
  by (auto simp add: share_eq_iff set_domain_def)

lemma xor_bytes_xor_left:
  "length s = 16 \<Longrightarrow> length sm = 16 \<Longrightarrow> length b = 16 \<Longrightarrow>
     xor_bytes (xor_bytes s b) sm = xor_bytes (xor_bytes s sm) b"
  by (rule nth_equalityI) (simp_all add: nth_xor_bytes xor.assoc xor.commute xor.left_commute)

lemma share_eq_xor_state:
  assumes "share_eq c d" "16 \<le> length blk"
  shows "share_eq (xor_state c blk) (xor_state d blk)"
proof -
  have b: "length (take 16 blk) = 16" using assms(2) by simp
  show ?thesis
    using assms b
    by (auto simp add: share_eq_iff xor_state_def XOR_BLOCK_ge xor_bytes_xor_left)
qed

lemma length_xor_prefix [simp]: "length (xor_prefix s ad n) = length s"
  unfolding xor_prefix_def by (induction n) simp_all

lemma xor_prefix_Suc: "xor_prefix s ad (Suc n) = (xor_prefix s ad n)[n := xor_prefix s ad n ! n XOR ad ! n]"
  by (simp add: xor_prefix_def)

lemma nth_xor_prefix:
  "i < length s \<Longrightarrow> xor_prefix s ad n ! i = (if i < n then s ! i XOR ad ! i else s ! i)"
proof (induction n)
  case 0
  then show ?case by (simp add: xor_prefix_def)
next
  case (Suc n)
  show ?case
  proof (cases "i = n")
    case True
    then show ?thesis using Suc by (simp add: xor_prefix_Suc)
  next
    case False
    then have "xor_prefix s ad (Suc n) ! i = xor_prefix s ad n ! i"
      by (simp add: xor_prefix_Suc)
    then show ?thesis using Suc False by auto
  qed
qed

lemma xor_prefix_shares:
  assumes "length s = 16" "length sm = 16" "length t = 16" "length tm = 16"
    and "xor_bytes s sm = xor_bytes t tm"
  shows "xor_bytes (xor_prefix s ad n) sm = xor_bytes (xor_prefix t ad n) tm"
proof (rule nth_equalityI)
  show "length (xor_bytes (xor_prefix s ad n) sm) = length (xor_bytes (xor_prefix t ad n) tm)"
    using assms by simp
next
  fix i assume "i < length (xor_bytes (xor_prefix s ad n) sm)"
  then have i: "i < 16" using assms by simp
  have e: "s ! i XOR sm ! i = t ! i XOR tm ! i"
    using assms i by (intro xor_bytes_nthD) simp_all
  have "(s ! i XOR ad ! i) XOR sm ! i = (s ! i XOR sm ! i) XOR ad ! i"
    by (simp add: xor.assoc xor.commute xor.left_commute)
  moreover have "(t ! i XOR ad ! i) XOR tm ! i = (t ! i XOR tm ! i) XOR ad ! i"
    by (simp add: xor.assoc xor.commute xor.left_commute)
  ultimately have "(s ! i XOR ad ! i) XOR sm ! i = (t ! i XOR ad ! i) XOR tm ! i"
    using e by simp
  then show "xor_bytes (xor_prefix s ad n) sm ! i = xor_bytes (xor_prefix t ad n) tm ! i"
    using i assms e by (simp add: nth_xor_bytes nth_xor_prefix)
qed

lemma share_eq_xor_prefix:
  "share_eq c d \<Longrightarrow>
     share_eq (c\<lparr>c_state := xor_prefix (c_state c) ad n\<rparr>) (d\<lparr>c_state := xor_prefix (c_state d) ad n\<rparr>)"
  by (auto simp add: share_eq_iff xor_prefix_shares)

lemma update15_shares:
  assumes "length s = 16" "length sm = 16" "length t = 16" "length tm = 16"
    and "xor_bytes s sm = xor_bytes t tm"
  shows "xor_bytes (s[15 := s ! 15 XOR v]) sm = xor_bytes (t[15 := t ! 15 XOR v]) tm"
proof (rule nth_equalityI)
  show "length (xor_bytes (s[15 := s ! 15 XOR v]) sm) = length (xor_bytes (t[15 := t ! 15 XOR v]) tm)"
    using assms by simp
next
  fix i assume "i < length (xor_bytes (s[15 := s ! 15 XOR v]) sm)"
  then have i: "i < 16" using assms by simp
  have e: "s ! i XOR sm ! i = t ! i XOR tm ! i"
    using assms i by (intro xor_bytes_nthD) simp_all
  have "(s ! i XOR v) XOR sm ! i = (s ! i XOR sm ! i) XOR v"
    by (simp add: xor.assoc xor.commute xor.left_commute)
  moreover have "(t ! i XOR v) XOR tm ! i = (t ! i XOR tm ! i) XOR v"
    by (simp add: xor.assoc xor.commute xor.left_commute)
  ultimately have "(s ! i XOR v) XOR sm ! i = (t ! i XOR v) XOR tm ! i"
    using e by simp
  then show "xor_bytes (s[15 := s ! 15 XOR v]) sm ! i = xor_bytes (t[15 := t ! 15 XOR v]) tm ! i"
    using i assms e by (auto simp add: nth_xor_bytes nth_list_update)
qed

lemma share_eq_update15:
  "share_eq c d \<Longrightarrow>
     share_eq (c\<lparr>c_state := (c_state c)[15 := c_state c ! 15 XOR v]\<rparr>)
              (d\<lparr>c_state := (c_state d)[15 := c_state d ! 15 XOR v]\<rparr>)"
  by (auto simp add: share_eq_iff update15_shares)

lemma tbc_123_eq:
  "tbc_123 P c tk2 k k_m =
     c\<lparr>c_state := fst (tbc P (c_tk1 c) tk2 k k_m (c_state c) (c_state_m c)),
       c_state_m := snd (tbc P (c_tk1 c) tk2 k k_m (c_state c) (c_state_m c)),
       c_rtk := fst (tk_schedule_23 P tk2 k k_m),
       c_rtk_m := snd (tk_schedule_23 P tk2 k k_m)\<rparr>"
  by (simp add: tbc_123_def tbc_def tk_schedule_123_def tk_schedule_23_def Let_def split_def)

lemma share_eq_tbc_123:
  assumes "masking_contract P" "share_eq c d" "16 \<le> length tk2"
    and "length k = 16" "length k_m = 16" "length k' = 16" "length k_m' = 16"
    and "xor_bytes k k_m = xor_bytes k' k_m'"
  shows "share_eq (tbc_123 P c tk2 k k_m) (tbc_123 P d tk2 k' k_m')"
proof -
  from assms(2) have e: "c_tk1 c = c_tk1 d" "length (c_tk1 d) = 16"
    "length (c_state c) = 16" "length (c_state_m c) = 16"
    "length (c_state d) = 16" "length (c_state_m d) = 16"
    "xor_bytes (c_state c) (c_state_m c) = xor_bytes (c_state d) (c_state_m d)"
    by (simp_all add: share_eq_iff)
  note A = assms(1)[unfolded masking_contract_def, rule_format,
      of "c_tk1 d" tk2 k k_m k' k_m' "c_state c" "c_state_m c" "c_state d" "c_state_m d"]
  note B = assms(1)[unfolded masking_contract_def, rule_format,
      of "c_tk1 d" tk2 k' k_m' k k_m "c_state d" "c_state_m d" "c_state c" "c_state_m c"]
  have a: "length (fst (tbc P (c_tk1 d) tk2 k k_m (c_state c) (c_state_m c))) = 16
          \<and> length (snd (tbc P (c_tk1 d) tk2 k k_m (c_state c) (c_state_m c))) = 16
          \<and> xor_bytes (fst (tbc P (c_tk1 d) tk2 k k_m (c_state c) (c_state_m c)))
                       (snd (tbc P (c_tk1 d) tk2 k k_m (c_state c) (c_state_m c)))
              = xor_bytes (fst (tbc P (c_tk1 d) tk2 k' k_m' (c_state d) (c_state_m d)))
                          (snd (tbc P (c_tk1 d) tk2 k' k_m' (c_state d) (c_state_m d)))"
    using A e assms(3-8) by simp
  have b: "length (fst (tbc P (c_tk1 d) tk2 k' k_m' (c_state d) (c_state_m d))) = 16
          \<and> length (snd (tbc P (c_tk1 d) tk2 k' k_m' (c_state d) (c_state_m d))) = 16"
    using B e assms(3-8) by simp
  show ?thesis
    using a b e by (simp add: tbc_123_eq share_eq_iff)
qed


section \<open>The core functions read only the bytes they are given the length of\<close>

lemma copy_Suc: "copy d s (Suc n) = (copy d s n)[n := s ! n]"
  by (simp add: copy_def)

lemma copy_cong: "(\<And>i. i < n \<Longrightarrow> s ! i = s' ! i) \<Longrightarrow> copy d s n = copy d s' n"
proof (induction n)
  case 0
  then show ?case by (simp add: copy_def)
next
  case (Suc n)
  then show ?case by (simp add: copy_Suc)
qed

lemma take_eq_nthD:
  assumes "take n a = take n b" "i < n"
  shows "a ! i = b ! i"
proof -
  have "take n a ! i = take n b ! i" using assms(1) by simp
  then show ?thesis using assms(2) by simp
qed

lemma pad_block_cong:
  assumes "take n s = take n s'"
  shows "pad_block s n = pad_block s' n"
proof -
  have "copy d s n = copy d s' n" for d
    by (rule copy_cong) (rule take_eq_nthD[OF assms])
  then show ?thesis by (simp only: pad_block_def)
qed

lemma length_copy [simp]: "length (copy d s n) = length d"
  unfolding copy_def by (induction n) simp_all

lemma length_pad_block [simp]: "length (pad_block s n) = 16"
  by (simp add: pad_block_def)

lemma take_drop_eq:
  assumes "take n a = take n b"
  shows "take (n - m) (drop m a) = take (n - m) (drop m b)"
proof -
  have "drop m (take n a) = drop m (take n b)" using assms by simp
  then show ?thesis by (simp only: drop_take)
qed

lemma take_take_eq:
  assumes "take n a = take n b" "m \<le> n"
  shows "take m a = take m b"
proof -
  have "take m (take n a) = take m (take n b)" using assms by simp
  then show ?thesis using assms(2) by (simp add: min_def)
qed

lemma xor_prefix_cong: "(\<And>i. i < n \<Longrightarrow> a ! i = b ! i) \<Longrightarrow> xor_prefix s a n = xor_prefix s b n"
proof (induction n)
  case 0
  then show ?case by (simp add: xor_prefix_def)
next
  case (Suc n)
  then show ?case by (simp add: xor_prefix_Suc)
qed

lemma xor_state_cong:
  assumes "take 16 a = take 16 b" "16 \<le> length a" "16 \<le> length b" "length (c_state c) = 16"
  shows "xor_state c a = xor_state c b"
  using assms by (simp add: xor_state_def XOR_BLOCK_ge)

lemma tk_schedule_123_take: "tk_schedule_123 P tk1 tk2 k k_m = tk_schedule_123 P tk1 (take 16 tk2) k k_m"
  by (simp add: tk_schedule_123_def)

lemma tbc_take: "tbc P tk1 tk2 k k_m p p_m = tbc P tk1 (take 16 tk2) k k_m p p_m"
  unfolding tbc_def by (subst tk_schedule_123_take) simp

lemma tbc_123_take:
  "c_state (tbc_123 P c tk2 k k_m) = c_state (tbc_123 P c (take 16 tk2) k k_m)"
  "c_state_m (tbc_123 P c tk2 k k_m) = c_state_m (tbc_123 P c (take 16 tk2) k k_m)"
  "c_tk1 (tbc_123 P c tk2 k k_m) = c_tk1 (tbc_123 P c (take 16 tk2) k k_m)"
  by (simp_all add: tbc_123_eq tbc_take[of _ _ tk2])

lemma share_eq_cong:
  assumes "c_state c = c_state c'" "c_state_m c = c_state_m c'" "c_tk1 c = c_tk1 c'"
    and "c_state d = c_state d'" "c_state_m d = c_state_m d'" "c_tk1 d = c_tk1 d'"
  shows "share_eq c d \<longleftrightarrow> share_eq c' d'"
  using assms by (simp add: share_eq_def)

lemma share_eq_tbc_123_cong:
  assumes "masking_contract P" "share_eq c d" "16 \<le> length tk2" "16 \<le> length tk2'"
    and "take 16 tk2 = take 16 tk2'"
    and "length k = 16" "length k_m = 16" "length k' = 16" "length k_m' = 16"
    and "xor_bytes k k_m = xor_bytes k' k_m'"
  shows "share_eq (tbc_123 P c tk2 k k_m) (tbc_123 P d tk2' k' k_m')"
proof -
  have "share_eq (tbc_123 P c (take 16 tk2) k k_m) (tbc_123 P d (take 16 tk2) k' k_m')"
    using assms by (intro share_eq_tbc_123) simp_all
  moreover have "share_eq (tbc_123 P c tk2 k k_m) (tbc_123 P d tk2' k' k_m')
      \<longleftrightarrow> share_eq (tbc_123 P c (take 16 tk2) k k_m) (tbc_123 P d (take 16 tk2) k' k_m')"
    by (rule share_eq_cong) (simp_all only: tbc_123_take[of P _ tk2'] tbc_123_take[of P _ tk2] assms(5))
  ultimately show ?thesis by simp
qed


section \<open>Decryption with a wrong tag\<close>

text \<open>
  Claim C2 says that a decryption call whose recomputed tag differs from the supplied
  tag returns a failure value and writes no byte to the plaintext buffer.  Romulus-M
  recomputes the tag from the decrypted message: crypto_aead_decrypt_shared of Romulus-M
  runs romulusm_process_msg on the caller's plaintext buffer first and verifies the tag
  afterwards.  With the stand-in cipher, a 17-byte ciphertext (one byte and an all-zero
  tag) and a plaintext buffer holding \<open>0xAA\<close>, the call fails and the buffer holds \<open>0xDA\<close>.
\<close>

theorem decrypt_m_writes_before_verify:
  "ret (crypto_aead_decrypt_shared toy_prims [0xAA] 0
          [0x5A, 0,0,0,0,0,0,0,0,0,0,0,0,0,0,0,0] 17 [] 0
          [0,0,0,0,0,0,0,0,0,0,0,0,0,0,0,0] [(0,0),(0,0),(0,0),(0,0)]) \<noteq> 0
   \<and> ms_out (crypto_aead_decrypt_shared toy_prims [0xAA] 0
          [0x5A, 0,0,0,0,0,0,0,0,0,0,0,0,0,0,0,0] 17 [] 0
          [0,0,0,0,0,0,0,0,0,0,0,0,0,0,0,0] [(0,0),(0,0),(0,0),(0,0)]) = [0xDA]"
proof -
  define cs :: bytes where "cs = [0x5A, 0,0,0,0,0,0,0,0,0,0,0,0,0,0,0,0]"
  define npubs :: bytes where "npubs = [0,0,0,0,0,0,0,0,0,0,0,0,0,0,0,0]"
  define ks :: "share2 list" where "ks = [(0,0),(0,0),(0,0),(0,0)]"
  have plain: "m_dec_plain toy_prims cs 17 npubs ks = [0xDA]"
    unfolding cs_def npubs_def ks_def by code_simp
  have tag: "m_dec_tag toy_prims [0xDA] cs 17 [] 0 npubs ks
               = [238, 0, 0, 0, 0, 0, 0, 143, 0, 0, 0, 0, 0, 0, 0, 128]"
    unfolding cs_def npubs_def ks_def
    apply (simp add: m_dec_tag_def romulusm_process_ad_def ad_leftover_def msg_leftover_def Let_def
                double_blocks_stop split_def
                del: double_blocks.simps)
    apply code_simp
    done
  have out: "ms_out (crypto_aead_decrypt_shared toy_prims [0xAA] 0 cs 17 [] 0 npubs ks) = [0xDA]"
    by (simp add: decrypt_m_unfold Let_def split_def plain)
  have "ret (crypto_aead_decrypt_shared toy_prims [0xAA] 0 cs 17 [] 0 npubs ks) = 0
     \<longleftrightarrow> m_dec_tag toy_prims (ms_out (crypto_aead_decrypt_shared toy_prims [0xAA] 0 cs 17 [] 0 npubs ks))
             cs 17 [] 0 npubs ks = drop (17 - 16) cs"
    by (rule decrypt_m_ret) (simp_all add: cs_def)
  then have "ret (crypto_aead_decrypt_shared toy_prims [0xAA] 0 cs 17 [] 0 npubs ks) \<noteq> 0"
    by (simp add: out tag) (simp add: cs_def)
  then show ?thesis using out unfolding cs_def npubs_def ks_def by simp
qed

text \<open>
  Claim C2, amended.  A decryption call whose recomputed tag differs from the supplied
  tag returns a non-zero value, in Romulus-T and in Romulus-M.  In Romulus-T a call that
  fails leaves the plaintext buffer as it was: the tag is verified before the message is
  decrypted.  In Romulus-M the plaintext buffer holds the bytes decrypted by
  romulusm_process_msg whatever the outcome of the verification, which is computed from
  those bytes.
\<close>

theorem decrypt_tag_mismatch:
  "(ret (crypto_aead_decrypt_shared_t T ms mlen cs clen ads adlen nshares ks) \<noteq> 0
      \<longrightarrow> ms_out (crypto_aead_decrypt_shared_t T ms mlen cs clen ads adlen nshares ks) = ms)
   \<and> (16 \<le> clen \<longrightarrow>
        (ret (crypto_aead_decrypt_shared_t T ms mlen cs clen ads adlen nshares ks) \<noteq> 0
          \<longleftrightarrow> (\<exists>i<16. t_dec_tag T cs clen ads adlen nshares ks ! i \<noteq> cs ! (clen - 16 + i))))
   \<and> (16 \<le> clen \<and> length cs = clen \<longrightarrow>
        (ret (crypto_aead_decrypt_shared P ms mlen cs clen ads adlen npubs ks) \<noteq> 0
          \<longleftrightarrow> m_dec_tag P (ms_out (crypto_aead_decrypt_shared P ms mlen cs clen ads adlen npubs ks))
                cs clen ads adlen npubs ks \<noteq> drop (clen - 16) cs)
        \<and> ms_out (crypto_aead_decrypt_shared P ms mlen cs clen ads adlen npubs ks)
             = m_dec_plain P cs clen npubs ks @ drop (length (m_dec_plain P cs clen npubs ks)) ms)"
proof (intro conjI impI)
  assume "ret (crypto_aead_decrypt_shared_t T ms mlen cs clen ads adlen nshares ks) \<noteq> 0"
  then show "ms_out (crypto_aead_decrypt_shared_t T ms mlen cs clen ads adlen nshares ks) = ms"
    by (cases "16 \<le> clen")
       (auto simp add: crypto_aead_decrypt_shared_t_def Let_def split: prod.splits if_splits)
next
  assume c: "16 \<le> clen"
  have "(\<exists>i\<in>set [0..<16]. t_dec_tag T cs clen ads adlen nshares ks ! i XOR cs ! (clen - 16 + i) \<noteq> 0)
       \<longleftrightarrow> (\<exists>i<16. t_dec_tag T cs clen ads adlen nshares ks ! i \<noteq> cs ! (clen - 16 + i))"
    by (auto simp add: word_xor_eq_0_iff)
  then show "ret (crypto_aead_decrypt_shared_t T ms mlen cs clen ads adlen nshares ks) \<noteq> 0
          \<longleftrightarrow> (\<exists>i<16. t_dec_tag T cs clen ads adlen nshares ks ! i \<noteq> cs ! (clen - 16 + i))"
    by (subst decrypt_t_unfold[OF c]) (simp del: set_upt)
next
  assume "16 \<le> clen \<and> length cs = clen"
  then show "ret (crypto_aead_decrypt_shared P ms mlen cs clen ads adlen npubs ks) \<noteq> 0
          \<longleftrightarrow> m_dec_tag P (ms_out (crypto_aead_decrypt_shared P ms mlen cs clen ads adlen npubs ks))
                cs clen ads adlen npubs ks \<noteq> drop (clen - 16) cs"
    using decrypt_m_ret[of clen cs P ms mlen ads adlen npubs ks] by simp
next
  assume "16 \<le> clen \<and> length cs = clen"
  then show "ms_out (crypto_aead_decrypt_shared P ms mlen cs clen ads adlen npubs ks)
             = m_dec_plain P cs clen npubs ks @ drop (length (m_dec_plain P cs clen npubs ks)) ms"
    by (simp add: decrypt_m_unfold Let_def split: prod.splits)
qed

theorem decrypt_tag_mismatch_witness:
  "ret (crypto_aead_decrypt_shared_t toy_tprims [0xAA] 0
          [0x5A, 0,0,0,0,0,0,0,0,0,0,0,0,0,0,0,0] 17 [] 0
          [(0,0),(0,0),(0,0),(0,0)] [(1,0),(0,0),(0,0),(0,0)]) \<noteq> 0
   \<and> ms_out (crypto_aead_decrypt_shared_t toy_tprims [0xAA] 0
          [0x5A, 0,0,0,0,0,0,0,0,0,0,0,0,0,0,0,0] 17 [] 0
          [(0,0),(0,0),(0,0),(0,0)] [(1,0),(0,0),(0,0),(0,0)]) = [0xAA]
   \<and> ms_out (crypto_aead_decrypt_shared toy_prims [0xAA] 0
          [0x5A, 0,0,0,0,0,0,0,0,0,0,0,0,0,0,0,0] 17 [] 0
          [0,0,0,0,0,0,0,0,0,0,0,0,0,0,0,0] [(1,0),(0,0),(0,0),(0,0)]) = [0x5A]"
proof -
  define cs :: bytes where "cs = [0x5A, 0,0,0,0,0,0,0,0,0,0,0,0,0,0,0,0]"
  define npubs :: bytes where "npubs = [0,0,0,0,0,0,0,0,0,0,0,0,0,0,0,0]"
  define nshares :: "share2 list" where "nshares = [(0,0),(0,0),(0,0),(0,0)]"
  define ks :: "share2 list" where "ks = [(1,0),(0,0),(0,0),(0,0)]"
  note inst = decrypt_tag_mismatch[where T = toy_tprims and P = toy_prims and ms = "[0xAA]" and mlen = 0
      and cs = cs and clen = 17 and ads = "[]" and adlen = 0 and nshares = nshares and ks = ks and npubs = npubs]
  have "t_dec_tag toy_tprims cs 17 [] 0 nshares ks ! 0 \<noteq> cs ! (17 - 16 + 0)"
    unfolding cs_def nshares_def ks_def by code_simp
  then have mism: "\<exists>i<16. t_dec_tag toy_tprims cs 17 [] 0 nshares ks ! i \<noteq> cs ! (17 - 16 + i)"
    by (intro exI[of _ 0]) simp
  have plain: "m_dec_plain toy_prims cs 17 npubs ks = [0x5A]"
    unfolding cs_def npubs_def ks_def by code_simp
  have len: "(16::nat) \<le> 17 \<and> length cs = 17" by (simp add: cs_def)
  from inst mism have r: "ret (crypto_aead_decrypt_shared_t toy_tprims [0xAA] 0 cs 17 [] 0 nshares ks) \<noteq> 0"
    by simp
  with inst have o: "ms_out (crypto_aead_decrypt_shared_t toy_tprims [0xAA] 0 cs 17 [] 0 nshares ks) = [0xAA]"
    by blast
  from inst len have "ms_out (crypto_aead_decrypt_shared toy_prims [0xAA] 0 cs 17 [] 0 npubs ks)
             = m_dec_plain toy_prims cs 17 npubs ks @ drop (length (m_dec_plain toy_prims cs 17 npubs ks)) [0xAA]"
    by blast
  then have m: "ms_out (crypto_aead_decrypt_shared toy_prims [0xAA] 0 cs 17 [] 0 npubs ks) = [0x5A]"
    by (simp add: plain)
  show ?thesis using r o m unfolding cs_def npubs_def nshares_def ks_def by blast
qed

section \<open>Decryption of a ciphertext shorter than the tag\<close>

text \<open>
  Claim C3.  A decryption call with \<open>clen < 16\<close> returns \<open>-1\<close> at once: whatever the
  cipher and the other routines are, the result is \<open>-1\<close> with the plaintext buffer and
  \<open>*mlen\<close> as they were before the call.  A call with \<open>clen \<ge> 16\<close> stores \<open>clen - 16\<close> to
  \<open>*mlen\<close>.  Both hold for Romulus-M and for Romulus-T.
\<close>


theorem decrypt_short_ciphertext:
  "(clen < 16 \<longrightarrow>
      crypto_aead_decrypt_shared P ms mlen cs clen ads adlen npubs ks
        = \<lparr>ret = - 1, mlen_out = mlen, ms_out = ms\<rparr>
      \<and> crypto_aead_decrypt_shared_t T ms mlen cs clen ads adlen nshares ks
        = \<lparr>ret = - 1, mlen_out = mlen, ms_out = ms\<rparr>)
   \<and> (16 \<le> clen \<longrightarrow>
      mlen_out (crypto_aead_decrypt_shared P ms mlen cs clen ads adlen npubs ks) = clen - 16
      \<and> mlen_out (crypto_aead_decrypt_shared_t T ms mlen cs clen ads adlen nshares ks) = clen - 16)"
  by (simp add: crypto_aead_decrypt_shared_def crypto_aead_decrypt_shared_t_def Let_def split: prod.splits)

theorem decrypt_short_ciphertext_witness:
  "crypto_aead_decrypt_shared toy_prims [0xAA, 0xBB] 7 [0x01, 0x02, 0x03] 3 [] 0
       [0,0,0,0,0,0,0,0,0,0,0,0,0,0,0,0] [(0,0),(0,0),(0,0),(0,0)]
     = \<lparr>ret = - 1, mlen_out = 7, ms_out = [0xAA, 0xBB]\<rparr>
   \<and> crypto_aead_decrypt_shared_t toy_tprims [0xAA, 0xBB] 7 [0x01, 0x02, 0x03] 3 [] 0
       [(0,0),(0,0),(0,0),(0,0)] [(0,0),(0,0),(0,0),(0,0)]
     = \<lparr>ret = - 1, mlen_out = 7, ms_out = [0xAA, 0xBB]\<rparr>
   \<and> mlen_out (crypto_aead_decrypt_shared toy_prims [0xAA, 0xBB] 7
       [0x01, 0x02, 0,0,0,0,0,0,0,0,0,0,0,0,0,0,0,0] 18 [] 0
       [0,0,0,0,0,0,0,0,0,0,0,0,0,0,0,0] [(0,0),(0,0),(0,0),(0,0)]) = 2
   \<and> mlen_out (crypto_aead_decrypt_shared_t toy_tprims [0xAA, 0xBB] 7
       [0x01, 0x02, 0,0,0,0,0,0,0,0,0,0,0,0,0,0,0,0] 18 [] 0
       [(0,0),(0,0),(0,0),(0,0)] [(0,0),(0,0),(0,0),(0,0)]) = 2"
  using decrypt_short_ciphertext[of 3 toy_prims "[0xAA, 0xBB]" 7 "[0x01, 0x02, 0x03]" "[]" 0
            "[0,0,0,0,0,0,0,0,0,0,0,0,0,0,0,0]" "[(0,0),(0,0),(0,0),(0,0)]" toy_tprims "[(0,0),(0,0),(0,0),(0,0)]"]
        decrypt_short_ciphertext[of 18 toy_prims "[0xAA, 0xBB]" 7 "[0x01, 0x02, 0,0,0,0,0,0,0,0,0,0,0,0,0,0,0,0]" "[]" 0
            "[0,0,0,0,0,0,0,0,0,0,0,0,0,0,0,0]" "[(0,0),(0,0),(0,0),(0,0)]" toy_tprims "[(0,0),(0,0),(0,0),(0,0)]"]
  by simp

section \<open>Tag verification\<close>

text \<open>
  Claim C4.  For every pair of 16-byte state shares and every 16-byte candidate tag,
  romulusn_verify_tag and romulusm_verify_tag apply \<open>G\<close> to both shares, OR the
  difference \<open>state[i] ^ state_m[i] ^ tag[i]\<close> of every one of the 16 byte positions into
  one accumulator (a fold over all indices, with no branch and no early exit), and return
  0 exactly when the tag that tag generation computes from the same shares equals the
  candidate byte for byte.
\<close>

theorem verify_tag_zero_iff:
  assumes "length tag = 16" "length state = 16" "length state_m = 16"
  shows "romulusn_verify_tag tag state state_m
           = fold (\<lambda>i acc. acc OR ucast (G state ! i XOR G state_m ! i XOR tag ! i)) [0..<16] 0
       \<and> romulusm_verify_tag tag state state_m = romulusn_verify_tag tag state state_m
       \<and> (romulusn_verify_tag tag state state_m = 0 \<longleftrightarrow> fst (romulusn_generate_tag state state_m) = tag)
       \<and> (romulusm_verify_tag tag state state_m = 0 \<longleftrightarrow> fst (romulusm_generate_tag state state_m) = tag)"
  using tag_diff_zero_iff[OF assms(1), of state state_m]
  by (simp add: romulusn_verify_tag_def romulusm_verify_tag_def generate_tag_xor fold_or_eq_0 del: set_upt)


theorem verify_tag_zero_iff_witness:
  "romulusn_verify_tag [0x40, 0xC1, 0x41, 0xC2, 0x42, 0xC3, 0x43, 0xC4, 0x44, 0xC5, 0x45, 0xC6, 0x46, 0xC7, 0x47, 0xC8]
       [0x01, 0x02, 0x03, 0x04, 0x05, 0x06, 0x07, 0x08, 0x09, 0x0A, 0x0B, 0x0C, 0x0D, 0x0E, 0x0F, 0x10]
       [0x80, 0x80, 0x80, 0x80, 0x80, 0x80, 0x80, 0x80, 0x80, 0x80, 0x80, 0x80, 0x80, 0x80, 0x80, 0x80] = 0
   \<and> romulusm_verify_tag [0x40, 0xC1, 0x41, 0xC2, 0x42, 0xC3, 0x43, 0xC4, 0x44, 0xC5, 0x45, 0xC6, 0x46, 0xC7, 0x47, 0xC9]
       [0x01, 0x02, 0x03, 0x04, 0x05, 0x06, 0x07, 0x08, 0x09, 0x0A, 0x0B, 0x0C, 0x0D, 0x0E, 0x0F, 0x10]
       [0x80, 0x80, 0x80, 0x80, 0x80, 0x80, 0x80, 0x80, 0x80, 0x80, 0x80, 0x80, 0x80, 0x80, 0x80, 0x80] \<noteq> 0"
proof -
  define S :: bytes where "S = [0x01, 0x02, 0x03, 0x04, 0x05, 0x06, 0x07, 0x08, 0x09, 0x0A, 0x0B, 0x0C, 0x0D, 0x0E, 0x0F, 0x10]"
  define SM :: bytes where "SM = [0x80, 0x80, 0x80, 0x80, 0x80, 0x80, 0x80, 0x80, 0x80, 0x80, 0x80, 0x80, 0x80, 0x80, 0x80, 0x80]"
  define T1 :: bytes where "T1 = [0x40, 0xC1, 0x41, 0xC2, 0x42, 0xC3, 0x43, 0xC4, 0x44, 0xC5, 0x45, 0xC6, 0x46, 0xC7, 0x47, 0xC8]"
  define T2 :: bytes where "T2 = [0x40, 0xC1, 0x41, 0xC2, 0x42, 0xC3, 0x43, 0xC4, 0x44, 0xC5, 0x45, 0xC6, 0x46, 0xC7, 0x47, 0xC9]"
  have len: "length S = 16" "length SM = 16" "length T1 = 16" "length T2 = 16"
    by (simp_all add: S_def SM_def T1_def T2_def)
  have n: "fst (romulusn_generate_tag S SM) = T1"
    unfolding S_def SM_def T1_def by code_simp
  have m: "fst (romulusm_generate_tag S SM) \<noteq> T2"
    unfolding S_def SM_def T2_def by code_simp
  note a = verify_tag_zero_iff[OF len(3) len(1) len(2)]
  note b = verify_tag_zero_iff[OF len(4) len(1) len(2)]
  from a n have "romulusn_verify_tag T1 S SM = 0" by blast
  moreover from b m have "romulusm_verify_tag T2 S SM \<noteq> 0" by blast
  ultimately show ?thesis unfolding S_def SM_def T1_def T2_def by blast
qed

section \<open>The RHO transform\<close>



section \<open>The masked AND gadget\<close>

text \<open>
  Claim C6 describes output share \<open>i\<close> of \<open>secand\<close> as \<open>NOT(x_other) AND y_same\<close>
  combined with \<open>x_same AND y_same\<close>.  The macro computes something else: its first
  output share does not depend on the other share of \<open>x\<close> at all.  With \<open>x1 = 0\<close>,
  \<open>x2 = 0xffffffff\<close>, \<open>y1 = 0xffffffff\<close>, \<open>y2 = 0\<close> both terms of the description are 0,
  so their XOR and their OR are 0, while the macro leaves \<open>0xffffffff\<close> in \<open>z1\<close>.
\<close>

theorem secand_not_spec_terms:
  "spec_and_terms 0 0xffffffff 0xffffffff = (0, 0)
   \<and> fst (secand 0 0xffffffff 0xffffffff 0) = 0xffffffff
   \<and> fst (secand 0 0xffffffff 0xffffffff 0)
        \<noteq> fst (spec_and_terms 0 0xffffffff 0xffffffff) XOR snd (spec_and_terms 0 0xffffffff 0xffffffff)
   \<and> fst (secand 0 0xffffffff 0xffffffff 0)
        \<noteq> fst (spec_and_terms 0 0xffffffff 0xffffffff) OR snd (spec_and_terms 0 0xffffffff 0xffffffff)"
  by (simp add: secand_def spec_and_terms_def)

text \<open>
  Claim C6, amended.  For all 32-bit share pairs \<open>(x1, x2)\<close> and \<open>(y1, y2)\<close>, \<open>secand\<close>
  computes output share \<open>i\<close> as \<open>(x_i OR NOT y2) XOR (x_i AND y1)\<close>, and the XOR of the two
  output shares is \<open>(x1 XOR x2) AND (y1 XOR y2)\<close>: the gadget is correct with respect to
  the unmasked AND.
\<close>

theorem secand_correct:
  "secand x1 x2 y1 y2 = ((x1 OR NOT y2) XOR (x1 AND y1), (x2 OR NOT y2) XOR (x2 AND y1))
   \<and> fst (secand x1 x2 y1 y2) XOR snd (secand x1 x2 y1 y2) = (x1 XOR x2) AND (y1 XOR y2)"
proof
  show "secand x1 x2 y1 y2 = ((x1 OR NOT y2) XOR (x1 AND y1), (x2 OR NOT y2) XOR (x2 AND y1))"
    by (simp add: secand_def xor.commute)
  show "fst (secand x1 x2 y1 y2) XOR snd (secand x1 x2 y1 y2) = (x1 XOR x2) AND (y1 XOR y2)"
    by (simp add: secand_def bit_eq_iff bit_simps) blast
qed

section \<open>The domain byte of the last associated-data call\<close>

text \<open>
  Claim C7 says that two length pairs in different structural cases (empty, odd number
  of full blocks, even number of full blocks, trailing partial block) get different
  domain bytes.  An empty input and an input of one byte are in different cases, but
  final_ad_domain treats the empty input as a padded partial block and returns the same
  byte for both, for the associated data and for the message.
\<close>

theorem final_ad_domain_empty_partial_collide:
  "spec_case_of 0 \<noteq> spec_case_of 1
   \<and> final_ad_domain 0 0 = final_ad_domain 1 0
   \<and> final_ad_domain 0 0 = final_ad_domain 0 1"
  by (simp add: spec_case_of_def final_ad_domain_def)

lemma final_ad_domain_bits:
  "final_ad_domain adlen mlen = ad_bits (domain_case_of adlen) XOR msg_bits (domain_case_of mlen)"
  by (simp add: final_ad_domain_def domain_case_of_def Let_def)

lemma domain_bits_inj:
  "ad_bits a XOR msg_bits m = ad_bits a' XOR msg_bits m' \<longleftrightarrow> a = a' \<and> m = m'"
  by (cases a; cases a'; cases m; cases m'; simp)

text \<open>
  Claim C7, amended.  final_ad_domain tells four cases of a length apart: empty or
  ending in a partial block in odd position, ending in a full block in odd position,
  ending in a partial block in even position, ending in a full block in even position.
  Two pairs (AD length, message length) get the same domain byte exactly when both
  lengths are in the same case; the empty input shares its case with the partial odd
  block.
\<close>

theorem final_ad_domain_distinct:
  "final_ad_domain adlen mlen = final_ad_domain adlen' mlen'
     \<longleftrightarrow> domain_case_of adlen = domain_case_of adlen' \<and> domain_case_of mlen = domain_case_of mlen'"
  by (simp only: final_ad_domain_bits domain_bits_inj)

theorem final_ad_domain_distinct_witness:
  "final_ad_domain 16 40 \<noteq> final_ad_domain 32 40 \<and> final_ad_domain 5 16 \<noteq> final_ad_domain 5 17"
  using final_ad_domain_distinct[of 16 40 32 40] final_ad_domain_distinct[of 5 16 5 17]
  by (simp add: domain_case_of_def)

section \<open>The block counter\<close>





section \<open>The counter update leaves the rest of tk1 alone\<close>

text \<open>
  Claim C9.  For every 16-byte \<open>tk1\<close>, \<open>UPDATE_CTR\<close> changes at most bytes 0..6: the
  domain byte \<open>tk1[7]\<close> and bytes 8..15 keep their values, so a domain byte stored by
  \<open>SET_DOMAIN\<close> survives every later counter update.
\<close>

theorem UPDATE_CTR_frame:
  assumes "length tk1 = 16"
  shows "length (UPDATE_CTR tk1) = 16 \<and> UPDATE_CTR tk1 ! 7 = tk1 ! 7 \<and>
         drop 8 (UPDATE_CTR tk1) = drop 8 tk1 \<and>
         UPDATE_CTR (SET_DOMAIN tk1 domain) ! 7 = domain"
proof -
  have "drop 8 (UPDATE_CTR tk1) = drop 8 tk1"
  proof (rule nth_equalityI)
    show "length (drop 8 (UPDATE_CTR tk1)) = length (drop 8 tk1)"
      by (simp add: UPDATE_CTR_length)
  next
    fix i assume "i < length (drop 8 (UPDATE_CTR tk1))"
    then have i: "i < 8" using assms by (simp add: UPDATE_CTR_length)
    have "8 \<le> 8 + i" by simp
    then show "drop 8 (UPDATE_CTR tk1) ! i = drop 8 tk1 ! i"
      using assms i by (simp add: UPDATE_CTR_length UPDATE_CTR_nth_high)
  qed
  moreover have "UPDATE_CTR (SET_DOMAIN tk1 domain) ! 7 = domain"
    using assms UPDATE_CTR_nth7[of "SET_DOMAIN tk1 domain"] by (simp add: SET_DOMAIN_def)
  ultimately show ?thesis
    using assms by (simp add: UPDATE_CTR_length UPDATE_CTR_nth7)
qed

theorem UPDATE_CTR_frame_witness:
  "UPDATE_CTR [0x00, 0x00, 0x00, 0x00, 0x00, 0x00, 0x80, 0x2C, 0x01, 0x02, 0x03, 0x04, 0x05, 0x06, 0x07, 0x08] ! 7 = 0x2C
   \<and> drop 8 (UPDATE_CTR [0x00, 0x00, 0x00, 0x00, 0x00, 0x00, 0x80, 0x2C, 0x01, 0x02, 0x03, 0x04, 0x05, 0x06, 0x07, 0x08])
       = [0x01, 0x02, 0x03, 0x04, 0x05, 0x06, 0x07, 0x08]"
  using UPDATE_CTR_frame[of "[0x00, 0x00, 0x00, 0x00, 0x00, 0x00, 0x80, 0x2C, 0x01, 0x02, 0x03, 0x04, 0x05, 0x06, 0x07, 0x08]"]
  by simp

section \<open>Packing the last incomplete word\<close>

text \<open>
  Claim C10.  For an input whose length is not a multiple of 4, the packing should leave
  in word \<open>len/4\<close> exactly the trailing bytes, the high bytes zero.  The code clears word
  \<open>len/4 + 1\<close> and then ORs the trailing bytes into word \<open>len/4\<close>, which it never
  cleared.  With the one-byte input \<open>0x01\<close> and an array that holds \<open>0xffffffff\<close> in its
  words before the call, word 0 is \<open>0xffffffff\<close> after the call and not \<open>0x00000001\<close>.
\<close>

theorem pack_bytes_keeps_stale_word:
  "pack_bytes [0x01] 1 [0xffffffff, 0xffffffff] = [0xffffffff, 0x00000000]
   \<and> fst (generate_shares_encrypt [0x01] [0xffffffff, 0xffffffff] 1 [] [] 0
             [0,0,0,0,0,0,0,0,0,0,0,0,0,0,0,0] [0,0,0,0] [0,0,0,0,0,0,0,0,0,0,0,0,0,0,0,0] [0,0,0,0]) ! 0
       = 0xffffffff
   \<and> fst (generate_shares_decrypt_t [0x01] [0xffffffff, 0xffffffff] 1 [] [] 0
             [0,0,0,0,0,0,0,0,0,0,0,0,0,0,0,0] [0,0,0,0] [0,0,0,0,0,0,0,0,0,0,0,0,0,0,0,0] [0,0,0,0]) ! 0
       = 0xffffffff"
  by code_simp

end
